theory Spec2Isabelle
  imports Main
begin

section \<open>Library behaviour that main.py relies on\<close>

text \<open>
  main.py is a thin layer over the Python standard library (\<open>int\<close>, \<open>str.lower\<close>,
  \<open>datetime\<close>), BeautifulSoup, httpx and the bonbast client. The handlers are embedded
  below as they are written; the library calls they make are embedded here, for text that
  is ASCII (a \<open>char\<close> is one byte). Text outside ASCII, where Python's \<open>int\<close> and
  \<open>\d\<close> also accept other decimal digits, is outside the model.
\<close>

subsection \<open>Text\<close>

definition code_point :: "char \<Rightarrow> nat" where
  "code_point c = of_char c"

definition isdigit :: "char \<Rightarrow> bool" where
  "isdigit c = (48 \<le> code_point c \<and> code_point c \<le> 57)"

definition digit_value :: "char \<Rightarrow> int" where
  "digit_value c = int (code_point c) - 48"

text \<open>The blanks that \<open>int\<close> skips around a number: tab, LF, VT, FF, CR and space.\<close>

definition isspace :: "char \<Rightarrow> bool" where
  "isspace c = (code_point c \<in> {9, 10, 11, 12, 13, 32})"

definition lower_char :: "char \<Rightarrow> char" where
  "lower_char c =
     (if 65 \<le> code_point c \<and> code_point c \<le> 90 then char_of (code_point c + 32) else c)"

text \<open>\<open>str.lower()\<close>.\<close>

definition str_lower :: "string \<Rightarrow> string" where
  "str_lower s = map lower_char s"

subsection \<open>\<open>int(text)\<close>\<close>

definition int_max_str_digits :: nat where
  "int_max_str_digits = 4300"

definition number_char :: "char \<Rightarrow> bool" where
  "number_char c = (isdigit c \<or> c = CHR ''_'')"

fun double_underscore :: "string \<Rightarrow> bool" where
  "double_underscore (a # b # r) =
     ((a = CHR ''_'' \<and> b = CHR ''_'') \<or> double_underscore (b # r))"
| "double_underscore r = False"

definition digits_value :: "string \<Rightarrow> int" where
  "digits_value ds = foldl (\<lambda>a c. 10 * a + digit_value c) 0 ds"

text \<open>
  \<open>int(s)\<close> in base 10: blanks, an optional sign, decimal digits that single underscores may
  separate, blanks. \<open>None\<close> is the \<open>ValueError\<close> that every other text raises (also a
  number of more than 4300 digits).
\<close>

definition py_int :: "string \<Rightarrow> int option" where
  "py_int s =
     (let s1 = dropWhile isspace s;
          neg = (s1 \<noteq> [] \<and> hd s1 = CHR ''-'');
          s2 = (if s1 \<noteq> [] \<and> (hd s1 = CHR ''+'' \<or> hd s1 = CHR ''-'') then tl s1 else s1);
          body = takeWhile number_char s2;
          rest = dropWhile number_char s2;
          ds = filter isdigit body
      in if body = [] \<or> hd body = CHR ''_'' \<or> last body = CHR ''_'' \<or> double_underscore body
            \<or> int_max_str_digits < length ds \<or> dropWhile isspace rest \<noteq> []
         then None
         else Some (if neg then - digits_value ds else digits_value ds))"

subsection \<open>Errors\<close>

text \<open>
  The exceptions that can leave a handler. \<open>HTTPException\<close> carries the status code and the
  detail; \<open>Exception\<close> is the bare exception \<open>crawl_soup\<close> raises, with its message.
\<close>

datatype error =
    HTTPException nat string
  | Exception string
  | ValueError
  | IndexError
  | KeyError
  | TypeError
  | AttributeError
  | OverflowError
  | RequestError
  | JSONDecodeError
  | BonbastError string
  | CancelledError
  | SystemExit

text \<open>
  \<open>except Exception\<close> catches every one of them but \<open>CancelledError\<close> and \<open>SystemExit\<close>,
  which derive from \<open>BaseException\<close> only. \<open>SystemExit\<close> is what the bonbast client raises
  when the main page of the site does not give it a token.
\<close>

definition is_Exception :: "error \<Rightarrow> bool" where
  "is_Exception e = (e \<noteq> CancelledError \<and> e \<noteq> SystemExit)"

subsection \<open>Sequences and exceptions\<close>

text \<open>\<open>xs[i]\<close> for a constant index \<open>i \<ge> 0\<close>.\<close>

definition getitem :: "'a list \<Rightarrow> nat \<Rightarrow> error + 'a" where
  "getitem xs i = (if i < length xs then Inr (xs ! i) else Inl IndexError)"

text \<open>\<open>int(s)\<close> with its exception.\<close>

definition int_of_text :: "string \<Rightarrow> error + int" where
  "int_of_text s = (case py_int s of None \<Rightarrow> Inl ValueError | Some n \<Rightarrow> Inr n)"

text \<open>Sequencing: an exception of the first computation skips the rest.\<close>

definition and_then :: "error + 'a \<Rightarrow> ('a \<Rightarrow> error + 'b) \<Rightarrow> error + 'b" where
  "and_then r f = (case r of Inl e \<Rightarrow> Inl e | Inr x \<Rightarrow> f x)"

subsection \<open>Dates\<close>

text \<open>
  A \<open>datetime.date\<close>, and a \<open>datetime.datetime\<close> at midnight (all that \<open>strptime\<close> with a
  date-only format and whole-day \<open>timedelta\<close> arithmetic produce). The calendar arithmetic
  is the proleptic Gregorian ordinal arithmetic of the \<open>datetime\<close> module.
\<close>

record date =
  year :: int
  month :: int
  day :: int

definition MAXYEAR :: int where
  "MAXYEAR = 9999"

definition is_leap :: "int \<Rightarrow> bool" where
  "is_leap y = (y mod 4 = 0 \<and> (y mod 100 \<noteq> 0 \<or> y mod 400 = 0))"

definition DAYS_IN_MONTH :: "int list" where
  "DAYS_IN_MONTH = [-1, 31, 28, 31, 30, 31, 30, 31, 31, 30, 31, 30, 31]"

definition DAYS_BEFORE_MONTH :: "int list" where
  "DAYS_BEFORE_MONTH = [-1, 0, 31, 59, 90, 120, 151, 181, 212, 243, 273, 304, 334]"

definition days_before_year :: "int \<Rightarrow> int" where
  "days_before_year y = (y - 1) * 365 + (y - 1) div 4 - (y - 1) div 100 + (y - 1) div 400"

definition days_in_month :: "int \<Rightarrow> int \<Rightarrow> int" where
  "days_in_month y m = (if m = 2 \<and> is_leap y then 29 else DAYS_IN_MONTH ! nat m)"

definition days_before_month :: "int \<Rightarrow> int \<Rightarrow> int" where
  "days_before_month y m = DAYS_BEFORE_MONTH ! nat m + (if 2 < m \<and> is_leap y then 1 else 0)"

definition ymd2ord :: "int \<Rightarrow> int \<Rightarrow> int \<Rightarrow> int" where
  "ymd2ord y m d = days_before_year y + days_before_month y m + d"

definition DI400Y :: int where "DI400Y = 146097"
definition DI100Y :: int where "DI100Y = 36524"
definition DI4Y :: int where "DI4Y = 1461"

text \<open>The month, and the day of the month, of day \<open>n\<close> (from 0) of a year.\<close>

definition month_and_day :: "bool \<Rightarrow> int \<Rightarrow> int \<times> int" where
  "month_and_day leapyear n =
     (let m = (n + 50) div 32;
          preceding = DAYS_BEFORE_MONTH ! nat m + (if 2 < m \<and> leapyear then 1 else 0)
      in if n < preceding
         then (m - 1, n - (preceding - (DAYS_IN_MONTH ! nat (m - 1)
                             + (if m - 1 = 2 \<and> leapyear then 1 else 0))) + 1)
         else (m, n - preceding + 1))"

definition ord2ymd :: "int \<Rightarrow> date" where
  "ord2ymd ordinal =
     (let n = ordinal - 1;
          n400 = n div DI400Y; n = n mod DI400Y;
          n100 = n div DI100Y; n = n mod DI100Y;
          n4 = n div DI4Y; n = n mod DI4Y;
          n1 = n div 365; n = n mod 365;
          y = n400 * 400 + 1 + n100 * 100 + n4 * 4 + n1
      in if n1 = 4 \<or> n100 = 4 then \<lparr>year = y - 1, month = 12, day = 31\<rparr>
         else
           let leapyear = (n1 = 3 \<and> (n4 \<noteq> 24 \<or> n100 = 3))
           in case month_and_day leapyear n of (m, d) \<Rightarrow> \<lparr>year = y, month = m, day = d\<rparr>)"

text \<open>The range check of the \<open>date\<close> constructor: \<open>False\<close> is its \<open>ValueError\<close>.\<close>

definition check_date_fields :: "int \<Rightarrow> int \<Rightarrow> int \<Rightarrow> bool" where
  "check_date_fields y m d =
     (1 \<le> y \<and> y \<le> MAXYEAR \<and> 1 \<le> m \<and> m \<le> 12 \<and> 1 \<le> d \<and> d \<le> days_in_month y m)"

text \<open>The dates the constructor accepts.\<close>

definition is_date :: "date \<Rightarrow> bool" where
  "is_date d = check_date_fields (year d) (month d) (day d)"

definition toordinal :: "date \<Rightarrow> int" where
  "toordinal d = ymd2ord (year d) (month d) (day d)"

definition MAXORDINAL :: int where
  "MAXORDINAL = 3652059"

text \<open>\<open>d + timedelta(days=i)\<close>; a result outside years 1 to 9999 raises \<open>OverflowError\<close>.\<close>

definition add_days :: "date \<Rightarrow> int \<Rightarrow> error + date" where
  "add_days d i =
     (let ordinal = toordinal d + i
      in if 0 < ordinal \<and> ordinal \<le> MAXORDINAL then Inr (ord2ymd ordinal) else Inl OverflowError)"

text \<open>\<open>(a - b).days\<close>.\<close>

definition days_between :: "date \<Rightarrow> date \<Rightarrow> int" where
  "days_between a b = toordinal a - toordinal b"

text \<open>\<open>a > b\<close> on dates: the comparison of \<open>(year, month, day)\<close>.\<close>

definition date_after :: "date \<Rightarrow> date \<Rightarrow> bool" where
  "date_after a b =
     (year b < year a \<or> (year b = year a \<and> (month b < month a
        \<or> (month b = month a \<and> day b < day a))))"

subsection \<open>\<open>strftime\<close> and \<open>strptime\<close>\<close>

definition digit_char :: "int \<Rightarrow> char" where
  "digit_char k = char_of (48 + nat k)"

text \<open>
  \<open>%Y\<close> as CPython 3.11 formats it through the C library on Linux: the year without
  padding, so that a year below 1000 has fewer than four digits (the years of a \<open>date\<close> are
  1 to 9999). \<open>%m\<close> and \<open>%d\<close> are zero-padded to two digits.
\<close>

definition fmt_Y :: "int \<Rightarrow> string" where
  "fmt_Y y =
     (if y < 10 then [digit_char y]
      else if y < 100 then [digit_char (y div 10), digit_char (y mod 10)]
      else if y < 1000
        then [digit_char (y div 100), digit_char (y div 10 mod 10), digit_char (y mod 10)]
      else [digit_char (y div 1000 mod 10), digit_char (y div 100 mod 10),
            digit_char (y div 10 mod 10), digit_char (y mod 10)])"

definition fmt_2 :: "int \<Rightarrow> string" where
  "fmt_2 k = [digit_char (k div 10 mod 10), digit_char (k mod 10)]"

definition strftime_Ymd :: "date \<Rightarrow> string" where
  "strftime_Ymd d = fmt_Y (year d) @ ''-'' @ fmt_2 (month d) @ ''-'' @ fmt_2 (day d)"

definition strftime_Ym :: "date \<Rightarrow> string" where
  "strftime_Ym d = fmt_Y (year d) @ ''-'' @ fmt_2 (month d)"

text \<open>
  The regular expressions \<open>strptime\<close> builds for the directives. Each function returns the
  ways the expression matches a prefix of the text, as (matched text, remaining text), in
  the order the backtracking matcher tries them.
\<close>

definition char_in :: "char \<Rightarrow> nat \<Rightarrow> nat \<Rightarrow> bool" where
  "char_in c lo hi = (lo \<le> code_point c \<and> code_point c \<le> hi)"

text \<open>\<open>%Y\<close>: \<open>\d\d\d\d\<close>.\<close>

definition re_Y :: "string \<Rightarrow> (string \<times> string) list" where
  "re_Y s = (if 4 \<le> length s \<and> list_all isdigit (take 4 s) then [(take 4 s, drop 4 s)] else [])"

text \<open>\<open>%m\<close>: \<open>1[0-2]|0[1-9]|[1-9]\<close>.\<close>

definition re_m :: "string \<Rightarrow> (string \<times> string) list" where
  "re_m s =
     (if 2 \<le> length s \<and> s ! 0 = CHR ''1'' \<and> char_in (s ! 1) 48 50 then [(take 2 s, drop 2 s)] else [])
   @ (if 2 \<le> length s \<and> s ! 0 = CHR ''0'' \<and> char_in (s ! 1) 49 57 then [(take 2 s, drop 2 s)] else [])
   @ (if 1 \<le> length s \<and> char_in (s ! 0) 49 57 then [(take 1 s, drop 1 s)] else [])"

text \<open>\<open>%d\<close>: \<open>3[0-1]|[1-2]\d|0[1-9]|[1-9]| [1-9]\<close>.\<close>

definition re_d :: "string \<Rightarrow> (string \<times> string) list" where
  "re_d s =
     (if 2 \<le> length s \<and> s ! 0 = CHR ''3'' \<and> char_in (s ! 1) 48 49 then [(take 2 s, drop 2 s)] else [])
   @ (if 2 \<le> length s \<and> char_in (s ! 0) 49 50 \<and> isdigit (s ! 1) then [(take 2 s, drop 2 s)] else [])
   @ (if 2 \<le> length s \<and> s ! 0 = CHR ''0'' \<and> char_in (s ! 1) 49 57 then [(take 2 s, drop 2 s)] else [])
   @ (if 1 \<le> length s \<and> char_in (s ! 0) 49 57 then [(take 1 s, drop 1 s)] else [])
   @ (if 2 \<le> length s \<and> s ! 0 = CHR '' '' \<and> char_in (s ! 1) 49 57 then [(take 2 s, drop 2 s)] else [])"

text \<open>A literal character of the format.\<close>

definition re_lit :: "char \<Rightarrow> string \<Rightarrow> string list" where
  "re_lit c s = (if s \<noteq> [] \<and> hd s = c then [tl s] else [])"

text \<open>
  The date a successful match stands for. \<open>None\<close> is the \<open>ValueError\<close> of a field that is
  out of range (year 0, 30 February).
\<close>

definition date_of_fields :: "string \<Rightarrow> string \<Rightarrow> string \<Rightarrow> date option" where
  "date_of_fields Y m d =
     (case (py_int Y, py_int m, py_int d) of
        (Some y, Some mo, Some dd) \<Rightarrow>
          if check_date_fields y mo dd then Some \<lparr>year = y, month = mo, day = dd\<rparr> else None
      | _ \<Rightarrow> None)"

text \<open>
  \<open>datetime.strptime(s, "%Y-%m-%d")\<close>: the first match of the expression decides; text left
  after it is an error (\<open>unconverted data remains\<close>). \<open>None\<close> is \<open>ValueError\<close>.
\<close>

definition strptime_Ymd :: "string \<Rightarrow> date option" where
  "strptime_Ymd s =
     (case [(Y, m, d, r5). (Y, r1) \<leftarrow> re_Y s, r2 \<leftarrow> re_lit CHR ''-'' r1, (m, r3) \<leftarrow> re_m r2,
                          r4 \<leftarrow> re_lit CHR ''-'' r3, (d, r5) \<leftarrow> re_d r4] of
        [] \<Rightarrow> None
      | (Y, m, d, r) # _ \<Rightarrow> if r \<noteq> [] then None else date_of_fields Y m d)"

text \<open>\<open>datetime.strptime(s, "%Y-%m")\<close>: the day defaults to 1.\<close>

definition strptime_Ym :: "string \<Rightarrow> date option" where
  "strptime_Ym s =
     (case [(Y, m, r3). (Y, r1) \<leftarrow> re_Y s, r2 \<leftarrow> re_lit CHR ''-'' r1, (m, r3) \<leftarrow> re_m r2] of
        [] \<Rightarrow> None
      | (Y, m, r) # _ \<Rightarrow> if r \<noteq> [] then None else date_of_fields Y m ''1'')"

section \<open>main.py\<close>

subsection \<open>The upstream site and the fetched page\<close>

text \<open>
  The upstream site is a function from a request to its response: it answers the same
  request the same way every time. Under this reading the \<open>@cache(expire=60 * 30)\<close> wrapper
  of a handler that answers a request, which answers a repeated call with a copy of the
  value the handler returned before, changes neither what the handler returns nor what it
  raises, and the handlers below are the functions under the decorator. The poller calls
  two of them cycle after cycle while the upstream services change: there the decorator
  is part of what happens.
\<close>

text \<open>
  A parsed page is represented by what the program reads of it: \<open>find_all("table")\<close> as a
  list of tables in document order, a table as the list \<open>find_all("tr")\<close> of its rows, and a
  row as the texts \<open>td.text\<close> of its \<open>find_all("td")\<close> cells.
\<close>

type_synonym row = "string list"
type_synonym table_soup = "row list"
type_synonym soup = "table_soup list"

type_synonym request = "string \<times> (string \<times> string) list"

text \<open>What \<open>httpx.post\<close> gives: no response (the request fails), or a status code and a page.\<close>

datatype response = NoResponse | Response nat soup

type_synonym upstream = "string \<Rightarrow> (string \<times> string) list \<Rightarrow> response"

text \<open>
  A handler's outcome: the value it returns or the exception that leaves it, and the
  requests it has sent upstream, in order.
\<close>

type_synonym 'a outcome = "(error + 'a) \<times> request list"

definition BONBAST_URL :: string where
  "BONBAST_URL = ''https://www.bonbast.com''"

fun merge_and_extract_tables :: "soup \<Rightarrow> row list" where
  "merge_and_extract_tables tables_soup =
     fold (\<lambda>table_soup tables. fold (\<lambda>tr tables. tables @ [tr]) (drop 1 table_soup) tables)
       tables_soup []"

definition crawl_soup :: "upstream \<Rightarrow> string \<Rightarrow> (string \<times> string) list \<Rightarrow> soup outcome" where
  "crawl_soup post url post_data =
     (case post url post_data of
        NoResponse \<Rightarrow> (Inl RequestError, [(url, post_data)])
      | Response status_code html \<Rightarrow>
          (if status_code \<noteq> 200 then Inl (Exception (''Failed to crawl '' @ url)) else Inr html,
           [(url, post_data)]))"

subsection \<open>GET /historical/{currency}\<close>

record quote =
  sell :: int
  buy :: int

text \<open>The body of the \<open>with contextlib.suppress(ValueError)\<close> block, for one row.\<close>

definition historical_block :: "row \<Rightarrow> (string \<rightharpoonup> quote) \<Rightarrow> error + (string \<rightharpoonup> quote)" where
  "historical_block row prices =
     and_then (getitem row 0) (\<lambda>exact_date.
     and_then (getitem row 1) (\<lambda>cell1.
     and_then (int_of_text cell1) (\<lambda>s.
     and_then (getitem row 2) (\<lambda>cell2.
     and_then (int_of_text cell2) (\<lambda>b.
       if 0 < s \<and> 0 < b then Inr (prices(exact_date \<mapsto> \<lparr>sell = s, buy = b\<rparr>))
       else Inr prices)))))"

text \<open>
  \<open>contextlib.suppress(ValueError)\<close> around a block that has not yet changed \<open>prices\<close> when it
  raises: a \<open>ValueError\<close> ends the block, every other exception goes on.
\<close>

definition suppress_ValueError :: "'a \<Rightarrow> error + 'a \<Rightarrow> error + 'a" where
  "suppress_ValueError prices r = (case r of Inl ValueError \<Rightarrow> Inr prices | _ \<Rightarrow> r)"

definition historical_row :: "row \<Rightarrow> (string \<rightharpoonup> quote) \<Rightarrow> error + (string \<rightharpoonup> quote)" where
  "historical_row row prices = suppress_ValueError prices (historical_block row prices)"

fun historical_rows :: "row list \<Rightarrow> (string \<rightharpoonup> quote) \<Rightarrow> error + (string \<rightharpoonup> quote)" where
  "historical_rows [] prices = Inr prices"
| "historical_rows (row # table) prices =
     (case historical_row row prices of Inl e \<Rightarrow> Inl e | Inr prices' \<Rightarrow> historical_rows table prices')"

definition read_historical_currency ::
    "upstream \<Rightarrow> string \<Rightarrow> string \<Rightarrow> (string \<rightharpoonup> quote) outcome" where
  "read_historical_currency post currency date =
     (case strptime_Ym date of
        None \<Rightarrow> (Inl (HTTPException 422 ''Invalid Date format. Expected YYYY-MM''), [])
      | Some d \<Rightarrow>
          (case crawl_soup post (BONBAST_URL @ ''/historical'')
                  [(''date'', strftime_Ymd d), (''currency'', currency)] of
             (Inl e, sent) \<Rightarrow> (Inl e, sent)
           | (Inr soup, sent) \<Rightarrow>
               (case soup of
                  [] \<Rightarrow> (Inl AttributeError, sent)
                | table_soup # _ \<Rightarrow> (historical_rows (drop 1 table_soup) Map.empty, sent))))"

subsection \<open>GET /archive/\<close>

text \<open>A value of the archive mapping: the text under \<open>date\<close>, or a currency's prices.\<close>

datatype item = Str string | Prices quote

definition archive_block :: "row \<Rightarrow> (string \<rightharpoonup> item) \<Rightarrow> error + (string \<rightharpoonup> item)" where
  "archive_block row prices =
     and_then (getitem row 0) (\<lambda>cell0.
     let currency = str_lower cell0 in
     and_then (getitem row 2) (\<lambda>cell2.
     and_then (int_of_text cell2) (\<lambda>s.
     and_then (getitem row 3) (\<lambda>cell3.
     and_then (int_of_text cell3) (\<lambda>b.
       if 0 < s \<and> 0 < b then Inr (prices(currency \<mapsto> Prices \<lparr>sell = s, buy = b\<rparr>))
       else Inr prices)))))"

definition archive_row :: "row \<Rightarrow> (string \<rightharpoonup> item) \<Rightarrow> error + (string \<rightharpoonup> item)" where
  "archive_row row prices = suppress_ValueError prices (archive_block row prices)"

fun archive_rows :: "row list \<Rightarrow> (string \<rightharpoonup> item) \<Rightarrow> error + (string \<rightharpoonup> item)" where
  "archive_rows [] prices = Inr prices"
| "archive_rows (row # table) prices =
     (case archive_row row prices of Inl e \<Rightarrow> Inl e | Inr prices' \<Rightarrow> archive_rows table prices')"

definition read_archive :: "upstream \<Rightarrow> string \<Rightarrow> (string \<rightharpoonup> item) outcome" where
  "read_archive post date =
     (case strptime_Ymd date of
        None \<Rightarrow> (Inl (HTTPException 422 ''Invalid Date format. Expected YYYY-MM-DD''), [])
      | Some d \<Rightarrow>
          (case crawl_soup post (BONBAST_URL @ ''/archive'') [(''date'', strftime_Ymd d)] of
             (Inl e, sent) \<Rightarrow> (Inl e, sent)
           | (Inr soup, sent) \<Rightarrow>
               (archive_rows (merge_and_extract_tables (butlast soup))
                  [''date'' \<mapsto> Str (strftime_Ymd d)], sent)))"

subsection \<open>GET /latest\<close>

text \<open>
  The bonbast client: \<open>get_token_from_main_page()\<close>, and the currencies that
  \<open>get_prices_from_api(token)\<close> returns first (the two other components are dropped).
\<close>

record currency = quote +
  code :: string

record bonbast =
  get_token_from_main_page :: "error + string"
  get_prices_from_api :: "string \<Rightarrow> error + currency list"

definition read_latest :: "bonbast \<Rightarrow> error + (string \<rightharpoonup> quote)" where
  "read_latest server =
     and_then (get_token_from_main_page server) (\<lambda>token.
     and_then (get_prices_from_api server token) (\<lambda>currencies.
       Inr (fold (\<lambda>c m. m(str_lower (code c) \<mapsto> \<lparr>sell = sell c, buy = buy c\<rparr>))
              currencies Map.empty)))"

subsection \<open>GET /archive/range\<close>

text \<open>One pass of the loop body for each \<open>i\<close> of \<open>range(duration.days + 1)\<close>.\<close>

fun archive_range_loop ::
    "upstream \<Rightarrow> date \<Rightarrow> int list \<Rightarrow> (string \<rightharpoonup> (string \<rightharpoonup> item)) \<Rightarrow> request list
      \<Rightarrow> (string \<rightharpoonup> (string \<rightharpoonup> item)) outcome" where
  "archive_range_loop post start_date [] price_range sent = (Inr price_range, sent)"
| "archive_range_loop post start_date (i # r) price_range sent =
     (case add_days start_date i of
        Inl e \<Rightarrow> (Inl e, sent)
      | Inr d \<Rightarrow>
          (case read_archive post (strftime_Ymd d) of
             (Inl e, sent') \<Rightarrow> (Inl e, sent @ sent')
           | (Inr price, sent') \<Rightarrow>
               (case price ''date'' of
                  None \<Rightarrow> (Inl KeyError, sent @ sent')
                | Some (Prices q) \<Rightarrow> (Inl TypeError, sent @ sent')
                | Some (Str date) \<Rightarrow>
                    archive_range_loop post start_date r
                      (price_range(date \<mapsto> price(''date'' := None))) (sent @ sent'))))"

text \<open>\<open>range(n)\<close>.\<close>

definition py_range :: "int \<Rightarrow> int list" where
  "py_range n = map int [0..<nat n]"

definition read_archive_range ::
    "upstream \<Rightarrow> string \<Rightarrow> string \<Rightarrow> (string \<rightharpoonup> (string \<rightharpoonup> item)) outcome" where
  "read_archive_range post start_date end_date =
     (case strptime_Ymd start_date of
        None \<Rightarrow> (Inl (HTTPException 422 ''Invalid Date format. Expected YYYY-MM-DD''), [])
      | Some s \<Rightarrow>
     (case strptime_Ymd end_date of
        None \<Rightarrow> (Inl (HTTPException 422 ''Invalid Date format. Expected YYYY-MM-DD''), [])
      | Some e \<Rightarrow>
          archive_range_loop post s (py_range (days_between e s + 1)) Map.empty []))"

subsection \<open>GET /crypto\<close>

text \<open>
  A decoded JSON document, over any representation \<open>'n\<close> of its numbers; an object is the
  list of the items of the \<open>dict\<close> it decodes to.
\<close>

datatype 'n json_value =
    JNull
  | JBool bool
  | JNumber 'n
  | JString string
  | JArray "'n json_value list"
  | JObject "(string \<times> 'n json_value) list"

text \<open>
  The response of the market API: its status code, the text of the \<open>HTTPStatusError\<close> that
  \<open>raise_for_status()\<close> builds for it, and what \<open>response.json()\<close> decodes (\<open>None\<close> when the
  body is not JSON).
\<close>

record 'n http_response =
  status_code :: nat
  status_error :: string
  json :: "'n json_value option"

definition is_success :: "nat \<Rightarrow> bool" where
  "is_success c = (200 \<le> c \<and> c \<le> 299)"

text \<open>\<open>data[key]\<close> for a text key.\<close>

definition subscript :: "'n json_value \<Rightarrow> string \<Rightarrow> error + 'n json_value" where
  "subscript data key =
     (case data of
        JObject items \<Rightarrow> (case map_of items key of None \<Rightarrow> Inl KeyError | Some v \<Rightarrow> Inr v)
      | _ \<Rightarrow> Inl TypeError)"

text \<open>The argument is what \<open>client.get\<close> gives: \<open>None\<close> when the request itself fails.\<close>

definition get_crypto_prices :: "'n http_response option \<Rightarrow> error + 'n json_value" where
  "get_crypto_prices wallex =
     (case wallex of
        None \<Rightarrow> Inl RequestError
      | Some response \<Rightarrow>
          if \<not> is_success (status_code response)
          then Inl (HTTPException (status_code response) (status_error response))
          else (case json response of
                  None \<Rightarrow> Inl JSONDecodeError
                | Some data \<Rightarrow>
                    and_then (subscript data ''result'') (\<lambda>result. subscript result ''symbols'')))"

subsection \<open>The cache decorator\<close>

text \<open>
  \<open>InMemoryBackend\<close> keeps a value together with the time \<open>ttl_ts\<close>, in seconds, at which
  it expires: \<open>set(key, value, expire)\<close> stores \<open>Value(value, now + expire)\<close>, and a lookup
  drops the entry when \<open>ttl_ts < now\<close>, where \<open>now\<close> is \<open>int(time.time())\<close> at that moment.
  An entry is \<open>None\<close> when the key is absent.
\<close>

type_synonym 'a entry = "('a \<times> nat) option"

definition backend_get :: "'a entry \<Rightarrow> nat \<Rightarrow> 'a entry" where
  "backend_get entry now =
     (case entry of
        None \<Rightarrow> None
      | Some (v, ttl_ts) \<Rightarrow> if ttl_ts < now then None else Some (v, ttl_ts))"

text \<open>
  The readings of the clock during one call of a fetch routine of the poller: when the
  decorator looks its entry up, when the decorator stores what the function has returned,
  and when \<open>cache_backend.set\<close> runs.
\<close>

record clock =
  at_lookup :: nat
  at_keep :: nat
  at_set :: nat

text \<open>
  A function under \<open>@cache(expire)\<close> that is awaited outside a request, as the poller awaits
  \<open>read_latest()\<close> and \<open>get_crypto_prices()\<close>. The decorator looks up the entry of the call:
  when there is one, its value is returned and the function does not run. Otherwise the
  function runs: what it raises goes on to the caller and nothing is stored, what it
  returns is stored for \<open>expire\<close> seconds and returned. The argument \<open>call\<close> is what the
  function gives if it runs; the last component of the result tells whether it has run.
\<close>

definition cache :: "nat \<Rightarrow> clock \<Rightarrow> 'a entry \<Rightarrow> error + 'a \<Rightarrow> (error + 'a) \<times> 'a entry \<times> bool" where
  "cache expire clk entry call =
     (case backend_get entry (at_lookup clk) of
        Some (v, ttl_ts) \<Rightarrow> (Inr v, Some (v, ttl_ts), False)
      | None \<Rightarrow>
          (case call of
             Inl e \<Rightarrow> (Inl e, None, True)
           | Inr v \<Rightarrow> (Inr v, Some (v, at_keep clk + expire), True)))"

subsection \<open>The background poller\<close>

text \<open>
  The poller's state: the entries of \<open>cache_backend\<close> under the keys the poller gives it (a
  value and the time at which it expires), the entries that the decorator holds for
  \<open>read_latest()\<close> and for \<open>get_crypto_prices()\<close> (its keys are hashes that the key builder
  makes from the name of the function, not the two keys of the poller), and the trace of
  what the poller has done: the routines it has awaited, the functions that have run under
  the decorator, the records it has logged, the values it has stored and its sleeps.
\<close>

datatype 'n cached = Latest "string \<rightharpoonup> quote" | Symbols "'n json_value"

datatype log_record =
    Data_fetched "string \<rightharpoonup> quote"
  | Error_fetching_data error
  | Crypto_fetched
  | Error_fetching_crypto_data error

datatype 'n effect =
    Awaited string
  | Fetched string
  | Logged log_record
  | Cache_set string "'n cached" nat
  | Slept nat

record 'n poller =
  store :: "string \<rightharpoonup> ('n cached \<times> nat)"
  latest_entry :: "(string \<rightharpoonup> quote) entry"
  crypto_entry :: "'n json_value entry"
  trace :: "'n effect list"

definition did :: "'n effect \<Rightarrow> 'n poller \<Rightarrow> 'n poller" where
  "did e st = st\<lparr>trace := trace st @ [e]\<rparr>"

text \<open>\<open>cache_backend.set(key, v, expire=expire)\<close> when the clock reads \<open>now\<close>.\<close>

definition cache_backend_set ::
    "string \<Rightarrow> 'n cached \<Rightarrow> nat \<Rightarrow> nat \<Rightarrow> 'n poller \<Rightarrow> 'n poller" where
  "cache_backend_set key v expire now st =
     did (Cache_set key v expire) (st\<lparr>store := (store st)(key \<mapsto> (v, now + expire))\<rparr>)"

text \<open>
  \<open>read_latest\<close> and \<open>get_crypto_prices\<close> as the poller awaits them, under
  \<open>@cache(expire=60 * 30)\<close>.
\<close>

definition read_latest_cached ::
    "bonbast \<Rightarrow> clock \<Rightarrow> 'n poller \<Rightarrow> (error + (string \<rightharpoonup> quote)) \<times> 'n poller" where
  "read_latest_cached server clk st =
     (case cache (60 * 30) clk (latest_entry st) (read_latest server) of
        (r, entry, has_run) \<Rightarrow>
          (r, (if has_run then did (Fetched ''read_latest'') else id) (st\<lparr>latest_entry := entry\<rparr>)))"

definition get_crypto_prices_cached ::
    "'n http_response option \<Rightarrow> clock \<Rightarrow> 'n poller \<Rightarrow> (error + 'n json_value) \<times> 'n poller" where
  "get_crypto_prices_cached wallex clk st =
     (case cache (60 * 30) clk (crypto_entry st) (get_crypto_prices wallex) of
        (r, entry, has_run) \<Rightarrow>
          (r, (if has_run then did (Fetched ''get_crypto_prices'') else id)
                (st\<lparr>crypto_entry := entry\<rparr>)))"

definition fetch_and_cache_data :: "bonbast \<Rightarrow> clock \<Rightarrow> 'n poller \<Rightarrow> error + 'n poller" where
  "fetch_and_cache_data server clk st =
     (case read_latest_cached server clk (did (Awaited ''read_latest'') st) of
        (Inr data, st) \<Rightarrow>
          Inr (cache_backend_set ''latest_data'' (Latest data) (60 * 30) (at_set clk)
                (did (Logged (Data_fetched data)) st))
      | (Inl e, st) \<Rightarrow>
          if is_Exception e then Inr (did (Logged (Error_fetching_data e)) st) else Inl e)"

definition fetch_crypto_data ::
    "'n http_response option \<Rightarrow> clock \<Rightarrow> 'n poller \<Rightarrow> error + 'n poller" where
  "fetch_crypto_data wallex clk st =
     (case get_crypto_prices_cached wallex clk (did (Awaited ''get_crypto_prices'') st) of
        (Inr crypto_data, st) \<Rightarrow>
          Inr (did (Logged Crypto_fetched)
                (cache_backend_set ''crypto_data'' (Symbols crypto_data) (60 * 30) (at_set clk) st))
      | (Inl e, st) \<Rightarrow>
          if is_Exception e then Inr (did (Logged (Error_fetching_crypto_data e)) st) else Inl e)"

text \<open>
  What the two upstream services answer during one cycle, and what the clock reads during
  its two fetch routines.
\<close>

record 'n world =
  bonbast_server :: bonbast
  wallex_api :: "'n http_response option"
  latest_clock :: clock
  crypto_clock :: clock

text \<open>
  The second definition of \<open>scheduler\<close> (it replaces the first one before the startup hook
  runs). \<open>while True\<close> never returns, so the loop is run for one cycle per element of a list
  of worlds: \<open>Inr\<close> is the state of the loop, still running, after these cycles, \<open>Inl\<close> an
  exception that has ended the loop.
\<close>

fun scheduler :: "'n world list \<Rightarrow> 'n poller \<Rightarrow> error + 'n poller" where
  "scheduler [] st = Inr st"
| "scheduler (w # ws) st =
     and_then (fetch_and_cache_data (bonbast_server w) (latest_clock w) st) (\<lambda>st.
     and_then (fetch_crypto_data (wallex_api w) (crypto_clock w) st) (\<lambda>st.
       scheduler ws (did (Slept 10) st)))"

subsection \<open>The default values of the date parameters\<close>

text \<open>
  The default of a parameter is an expression in the \<open>def\<close> line: Python evaluates it once,
  when the module is loaded, with \<open>today\<close> the value of \<open>datetime.date.today()\<close> at that
  moment. A request that leaves the parameter out gets the stored value.
\<close>

record defaults =
  historical_date :: string
  archive_date :: string
  range_end_date :: string

definition module_defaults :: "date \<Rightarrow> error + defaults" where
  "module_defaults today =
     and_then (add_days today (- 1)) (\<lambda>yesterday.
       Inr \<lparr>historical_date = strftime_Ym today,
            archive_date = strftime_Ymd yesterday,
            range_end_date = strftime_Ymd yesterday\<rparr>)"

definition get_historical ::
    "defaults \<Rightarrow> upstream \<Rightarrow> string \<Rightarrow> string option \<Rightarrow> (string \<rightharpoonup> quote) outcome" where
  "get_historical defs post currency date =
     read_historical_currency post currency
       (case date of None \<Rightarrow> historical_date defs | Some d \<Rightarrow> d)"

definition get_archive :: "defaults \<Rightarrow> upstream \<Rightarrow> string option \<Rightarrow> (string \<rightharpoonup> item) outcome" where
  "get_archive defs post date =
     read_archive post (case date of None \<Rightarrow> archive_date defs | Some d \<Rightarrow> d)"

definition get_archive_range ::
    "defaults \<Rightarrow> upstream \<Rightarrow> string \<Rightarrow> string option
      \<Rightarrow> (string \<rightharpoonup> (string \<rightharpoonup> item)) outcome" where
  "get_archive_range defs post start_date end_date =
     read_archive_range post start_date
       (case end_date of None \<Rightarrow> range_end_date defs | Some d \<Rightarrow> d)"

section \<open>Reference descriptions and sample inputs\<close>

text \<open>
  The result that the decorator still holds for a function when the clock reads \<open>now\<close>: a
  result is held until the clock has passed the time at which it expires.
\<close>

definition held :: "'a entry \<Rightarrow> nat \<Rightarrow> 'a option" where
  "held entry now =
     (case entry of None \<Rightarrow> None | Some (v, ttl_ts) \<Rightarrow> if now \<le> ttl_ts then Some v else None)"


text \<open>
  The entry that a table row is expected to contribute, as the specification describes the
  rows: a row \<open>[date, sell, buy]\<close> of \<open>/historical\<close>, or \<open>[currencyCode, _, sell, buy]\<close> of
  \<open>/archive/\<close>, whose sell and buy are positive integers gives these prices under its date,
  or under its lower-cased currency code; every other row gives nothing.
\<close>

fun spec_historical_entry :: "row \<Rightarrow> (string \<times> quote) option" where
  "spec_historical_entry (exact_date # sell_cell # buy_cell # cells) =
     (case (py_int sell_cell, py_int buy_cell) of
        (Some s, Some b) \<Rightarrow>
          if 0 < s \<and> 0 < b then Some (exact_date, \<lparr>sell = s, buy = b\<rparr>) else None
      | _ \<Rightarrow> None)"
| "spec_historical_entry _ = None"

fun spec_archive_entry :: "row \<Rightarrow> (string \<times> item) option" where
  "spec_archive_entry (currency_code # name # sell_cell # buy_cell # cells) =
     (case (py_int sell_cell, py_int buy_cell) of
        (Some s, Some b) \<Rightarrow>
          if 0 < s \<and> 0 < b then Some (str_lower currency_code, Prices \<lparr>sell = s, buy = b\<rparr>)
          else None
      | _ \<Rightarrow> None)"
| "spec_archive_entry _ = None"

text \<open>
  The mapping that the rows of a table are expected to leave, from the mapping \<open>prices\<close> the
  handler starts with: the entries of the rows, in the order of the rows.
\<close>

definition spec_prices ::
    "(row \<Rightarrow> (string \<times> 'v) option) \<Rightarrow> row list \<Rightarrow> (string \<rightharpoonup> 'v) \<Rightarrow> (string \<rightharpoonup> 'v)" where
  "spec_prices entry table prices =
     fold (\<lambda>row m. case entry row of None \<Rightarrow> m | Some (k, v) \<Rightarrow> m(k \<mapsto> v)) table prices"

text \<open>An upstream site that cannot be reached.\<close>

definition offline :: upstream where
  "offline url post_data = NoResponse"

text \<open>
  An upstream site that answers every request with status 200: on \<open>/historical\<close> a page
  with one table, on every other path a page with three tables.
\<close>

definition historical_page :: soup where
  "historical_page =
     [[[''Date'', ''Sell'', ''Buy''],
       [''2024-01-01'', ''42000'', ''41900''],
       [''2024-01-02'', ''-'', ''-''],
       [''2024-01-03'', ''42100'', ''-5'']]]"

definition archive_page :: soup where
  "archive_page =
     [[[''Code'', ''Currency'', ''Sell'', ''Buy''],
       [''USD'', ''US Dollar'', ''42000'', ''41900''],
       [''EUR'', ''Euro'', ''n/a'', ''45000'']],
      [[''Code'', ''Currency'', ''Sell'', ''Buy''],
       [''GBP'', ''British Pound'', ''53000'', ''0'']],
      [[''Coin'', ''Name'', ''Sell'', ''Buy''],
       [''AZADI'', ''Azadi'', ''1'', ''1'']]]"

definition sample_site :: upstream where
  "sample_site url post_data =
     Response 200 (if url = BONBAST_URL @ ''/historical'' then historical_page else archive_page)"

text \<open>A site whose tables have rows with too few cells.\<close>

definition short_rows_site :: upstream where
  "short_rows_site url post_data =
     Response 200
       (if url = BONBAST_URL @ ''/historical''
        then [[[''Date'', ''Sell'', ''Buy''], [''2024-01-01'', ''42000'']]]
        else [[[''Code'', ''Currency'', ''Sell'', ''Buy''], [''USD'', ''US Dollar'', ''42000'']], []])"

text \<open>
  A site whose tables have a row that stops after a sell cell reading \<open>0\<close>.
\<close>

definition zero_sell_site :: upstream where
  "zero_sell_site url post_data =
     Response 200
       (if url = BONBAST_URL @ ''/historical''
        then [[[''Date'', ''Sell'', ''Buy''], [''2024-01-01'', ''0'']]]
        else [[[''Code'', ''Currency'', ''Sell'', ''Buy''], [''USD'', ''US Dollar'', ''0'']], []])"

text \<open>
  A bonbast client that works, one that raises an \<open>Exception\<close> of its own, and one that
  finds no token in the main page.
\<close>

definition sample_bonbast :: bonbast where
  "sample_bonbast =
     \<lparr>get_token_from_main_page = Inr ''token'',
      get_prices_from_api = (\<lambda>token.
        Inr [\<lparr>sell = 42000, buy = 41900, code = ''USD''\<rparr>,
             \<lparr>sell = 46000, buy = 45900, code = ''EUR''\<rparr>])\<rparr>"



text \<open>A market API that answers, and one that is down.\<close>

definition wallex_ok :: "int http_response" where
  "wallex_ok =
     \<lparr>status_code = 200, status_error = [],
      json = Some (JObject [(''success'', JBool True),
               (''result'', JObject [(''symbols'', JObject [(''BTCUSDT'', JNumber 64000)])])])\<rparr>"

definition wallex_down :: "int http_response" where
  "wallex_down =
     \<lparr>status_code = 503, status_error = ''Server error 503 Service Unavailable'', json = None\<rparr>"






text \<open>The defaults of a process that loaded the module on 31 January 2024.\<close>

definition loaded_2024_01_31 :: defaults where
  "loaded_2024_01_31 =
     \<lparr>historical_date = ''2024-01'', archive_date = ''2024-01-30'',
      range_end_date = ''2024-01-30''\<rparr>"

text \<open>The entry of one day in the answer of \<open>sample_site\<close>, as \<open>/archive/range\<close> stores it.\<close>

definition sample_entry :: "string \<Rightarrow> (string \<rightharpoonup> item)" where
  "sample_entry date =
     [''date'' \<mapsto> Str date, ''usd'' \<mapsto> Prices \<lparr>sell = 42000, buy = 41900\<rparr>](''date'' := None)"

section \<open>Properties of the calendar arithmetic\<close>

lemma div_step:
  fixes y k :: int
  assumes "0 < k"
  shows "y div k = (y - 1) div k + (if y mod k = 0 then 1 else 0)"
proof -
  define q where "q = (y - 1) div k"
  define r where "r = (y - 1) mod k"
  have r: "0 \<le> r" "r < k" using assms by (simp_all add: r_def)
  have y: "y = k * q + r + 1" by (simp add: q_def r_def)
  show ?thesis
  proof (cases "r + 1 < k")
    case True
    have "y div k = q" by (rule int_div_pos_eq [where r = "r + 1"]) (use y r True in auto)
    moreover have "y mod k = r + 1" by (rule int_mod_pos_eq [where q = q]) (use y r True in auto)
    ultimately show ?thesis using r by (simp add: q_def)
  next
    case False
    with r have rk: "r + 1 = k" by simp
    have "y div k = q + 1" by (rule int_div_pos_eq [where r = 0]) (use y rk assms in \<open>auto simp: algebra_simps\<close>)
    moreover have "y mod k = 0" by (rule int_mod_pos_eq [where q = "q + 1"]) (use y rk assms in \<open>auto simp: algebra_simps\<close>)
    ultimately show ?thesis by (simp add: q_def)
  qed
qed

lemma mod_100_4: "(y::int) mod 100 = 0 \<Longrightarrow> y mod 4 = 0"
  using mod_mod_cancel [of 4 100 y] by simp

lemma mod_400_100: "(y::int) mod 400 = 0 \<Longrightarrow> y mod 100 = 0"
  using mod_mod_cancel [of 100 400 y] by simp

lemma days_before_year_step:
  "days_before_year (y + 1) = days_before_year y + (if is_leap y then 366 else 365)"
proof -
  define a where "a \<longleftrightarrow> y mod 4 = 0"
  define b where "b \<longleftrightarrow> y mod 100 = 0"
  define c where "c \<longleftrightarrow> y mod 400 = 0"
  define q4 where "q4 = (y - 1) div 4"
  define q100 where "q100 = (y - 1) div 100"
  define q400 where "q400 = (y - 1) div 400"
  define p4 where "p4 = y div 4"
  define p100 where "p100 = y div 100"
  define p400 where "p400 = y div 400"
  have d4: "p4 = q4 + (if a then 1 else 0)"
    unfolding p4_def q4_def a_def by (rule div_step) simp
  have d100: "p100 = q100 + (if b then 1 else 0)"
    unfolding p100_def q100_def b_def by (rule div_step) simp
  have d400: "p400 = q400 + (if c then 1 else 0)"
    unfolding p400_def q400_def c_def by (rule div_step) simp
  have ba: "b \<longrightarrow> a" and cb: "c \<longrightarrow> b"
    unfolding a_def b_def c_def using mod_100_4 [of y] mod_400_100 [of y] by blast+
  have leap: "is_leap y \<longleftrightarrow> a \<and> (\<not> b \<or> c)"
    by (simp only: is_leap_def a_def b_def c_def)
  have l: "days_before_year (y + 1) = y * 365 + p4 - p100 + p400"
    by (simp only: days_before_year_def p4_def p100_def p400_def add_diff_cancel_right')
  have r: "days_before_year y = (y - 1) * 365 + q4 - q100 + q400"
    by (simp only: days_before_year_def q4_def q100_def q400_def)
  show ?thesis
    unfolding l r leap d4 d100 d400 using ba cb by (cases a; cases b; cases c; simp)
qed

lemma days_before_year_mono: "a \<le> b \<Longrightarrow> days_before_year a \<le> days_before_year b"
proof (induction b rule: int_ge_induct)
  case base
  show ?case by simp
next
  case (step i)
  have "days_before_year i \<le> days_before_year (i + 1)"
    by (simp only: days_before_year_step split: if_split) simp
  with step show ?case by simp
qed

lemma days_before_year_next:
  assumes "a < b"
  shows "days_before_year a + (if is_leap a then 366 else 365) \<le> days_before_year b"
proof -
  from assms have "a + 1 \<le> b" by simp
  then have "days_before_year (a + 1) \<le> days_before_year b" by (rule days_before_year_mono)
  then show ?thesis by (simp only: days_before_year_step)
qed

lemma days_before_year_1: "days_before_year 1 = 0"
  by (simp add: days_before_year_def)

lemma days_before_year_10000: "days_before_year 10000 = 3652059"
  by (simp add: days_before_year_def)

lemma month_cases [consumes 2, case_names 1 2 3 4 5 6 7 8 9 10 11 12]:
  fixes m :: int
  assumes "1 \<le> m" "m \<le> 12"
  obtains "m = 1" | "m = 2" | "m = 3" | "m = 4" | "m = 5" | "m = 6"
    | "m = 7" | "m = 8" | "m = 9" | "m = 10" | "m = 11" | "m = 12"
proof -
  have "m = 1 \<or> m = 2 \<or> m = 3 \<or> m = 4 \<or> m = 5 \<or> m = 6
      \<or> m = 7 \<or> m = 8 \<or> m = 9 \<or> m = 10 \<or> m = 11 \<or> m = 12"
    using assms by arith
  then show thesis using that by blast
qed

lemmas month_defs = days_before_month_def days_in_month_def DAYS_BEFORE_MONTH_def DAYS_IN_MONTH_def

lemma days_before_month_step:
  assumes "1 \<le> m" "m \<le> 11"
  shows "days_before_month y (m + 1) = days_before_month y m + days_in_month y m"
proof -
  from assms have "1 \<le> m" "m \<le> 12" by simp_all
  then show ?thesis
    using assms by (cases m rule: month_cases) (simp_all add: month_defs)
qed

lemma days_in_month_ge: "1 \<le> m \<Longrightarrow> m \<le> 12 \<Longrightarrow> 28 \<le> days_in_month y m"
  by (cases m rule: month_cases) (simp_all add: month_defs)

lemma days_in_month_le: "1 \<le> m \<Longrightarrow> m \<le> 12 \<Longrightarrow> days_in_month y m \<le> 31"
  by (cases m rule: month_cases) (simp_all add: month_defs)

lemma days_before_month_ge: "1 \<le> m \<Longrightarrow> m \<le> 12 \<Longrightarrow> 0 \<le> days_before_month y m"
  by (cases m rule: month_cases) (simp_all add: month_defs)

lemma days_before_month_end:
  "1 \<le> m \<Longrightarrow> m \<le> 12 \<Longrightarrow>
   days_before_month y m + days_in_month y m \<le> (if is_leap y then 366 else 365)"
  by (cases m rule: month_cases) (simp_all add: month_defs)

lemma days_before_month_next:
  assumes "1 \<le> m" "m < m'" "m' \<le> 12"
  shows "days_before_month y m + days_in_month y m \<le> days_before_month y m'"
proof -
  have "m + 1 \<le> m'" using assms by simp
  then have "m' \<le> 12 \<longrightarrow> days_before_month y m + days_in_month y m \<le> days_before_month y m'"
  proof (induction m' rule: int_ge_induct)
    case base
    show ?case using assms by (simp add: days_before_month_step)
  next
    case (step i)
    show ?case
    proof
      assume i: "i + 1 \<le> 12"
      with step assms have "days_before_month y (i + 1) = days_before_month y i + days_in_month y i"
        by (intro days_before_month_step) simp_all
      moreover have "28 \<le> days_in_month y i" using step i assms by (intro days_in_month_ge) simp_all
      ultimately show "days_before_month y m + days_in_month y m \<le> days_before_month y (i + 1)"
        using step i by simp
    qed
  qed
  with assms show ?thesis by simp
qed


lemma year_structure:
  fixes a b c e y :: int
  assumes b: "0 \<le> b" "b \<le> 3" and c: "0 \<le> c" "c \<le> 24" and e: "0 \<le> e" "e \<le> 3"
    and y: "y = 400 * a + 100 * b + 4 * c + e + 1"
  shows "days_before_year y = 146097 * a + 36524 * b + 1461 * c + 365 * e"
    and "is_leap y \<longleftrightarrow> e = 3 \<and> (c \<noteq> 24 \<or> b = 3)"
proof -
  have q4: "(y - 1) div 4 = 100 * a + 25 * b + c"
    by (rule int_div_pos_eq [where r = e]) (use y e in simp_all)
  have q100: "(y - 1) div 100 = 4 * a + b"
    by (rule int_div_pos_eq [where r = "4 * c + e"]) (use y c e in simp_all)
  have q400: "(y - 1) div 400 = a"
    by (rule int_div_pos_eq [where r = "100 * b + 4 * c + e"]) (use y b c e in simp_all)
  show "days_before_year y = 146097 * a + 36524 * b + 1461 * c + 365 * e"
    unfolding days_before_year_def q4 q100 q400 using y by simp
  have m4: "y mod 4 = 0 \<longleftrightarrow> e = 3"
  proof (cases "e = 3")
    case True
    have "y mod 4 = 0"
      by (rule int_mod_pos_eq [where q = "100 * a + 25 * b + c + 1"]) (use y True in simp_all)
    with True show ?thesis by simp
  next
    case False
    have "y mod 4 = e + 1"
      by (rule int_mod_pos_eq [where q = "100 * a + 25 * b + c"]) (use y e False in simp_all)
    with False e show ?thesis by simp
  qed
  have m100: "y mod 100 = 0 \<longleftrightarrow> c = 24 \<and> e = 3"
  proof (cases "c = 24 \<and> e = 3")
    case True
    have "y mod 100 = 0"
      by (rule int_mod_pos_eq [where q = "4 * a + b + 1"]) (use y True in simp_all)
    with True show ?thesis by simp
  next
    case False
    have "y mod 100 = 4 * c + e + 1"
      by (rule int_mod_pos_eq [where q = "4 * a + b"]) (use y c e False in auto)
    with False c e show ?thesis by simp
  qed
  have m400: "y mod 400 = 0 \<longleftrightarrow> b = 3 \<and> c = 24 \<and> e = 3"
  proof (cases "b = 3 \<and> c = 24 \<and> e = 3")
    case True
    have "y mod 400 = 0"
      by (rule int_mod_pos_eq [where q = "a + 1"]) (use y True in simp_all)
    with True show ?thesis by simp
  next
    case False
    have "y mod 400 = 100 * b + 4 * c + e + 1"
      by (rule int_mod_pos_eq [where q = a]) (use y b c e False in auto)
    with False b c e show ?thesis by simp
  qed
  show "is_leap y \<longleftrightarrow> e = 3 \<and> (c \<noteq> 24 \<or> b = 3)"
    unfolding is_leap_def m4 m100 m400 by blast
qed


lemma month_and_day_correct:
  assumes n: "0 \<le> n" "n < 365" and leap: "leap = is_leap y"
  shows "case month_and_day leap n of (m, d) \<Rightarrow>
           1 \<le> m \<and> m \<le> 12 \<and> 1 \<le> d \<and> d \<le> days_in_month y m
           \<and> days_before_month y m + d = n + 1"
proof -
  define k where "k = (n + 50) div 32"
  define r where "r = (n + 50) mod 32"
  have r: "0 \<le> r" "r < 32" by (simp_all add: r_def)
  have nk: "n + 50 = 32 * k + r" by (simp add: k_def r_def)
  have k: "1 \<le> k" "k \<le> 12" using n r nk by arith+
  have md: "month_and_day l n =
      (let preceding = DAYS_BEFORE_MONTH ! nat k + (if 2 < k \<and> l then 1 else 0)
       in if n < preceding
          then (k - 1, n - (preceding - (DAYS_IN_MONTH ! nat (k - 1)
                              + (if k - 1 = 2 \<and> l then 1 else 0))) + 1)
          else (k, n - preceding + 1))" for l
    unfolding month_and_day_def k_def Let_def by (rule refl)
  from k show ?thesis
  proof (cases k rule: month_cases)
    case 1 then show ?thesis using n r nk unfolding md by (cases leap) (simp_all add: month_defs leap [symmetric])
  next
    case 2 then show ?thesis using n r nk unfolding md by (cases leap) (simp_all add: month_defs leap [symmetric])
  next
    case 3 then show ?thesis using n r nk unfolding md by (cases leap) (simp_all add: month_defs leap [symmetric])
  next
    case 4 then show ?thesis using n r nk unfolding md by (cases leap) (simp_all add: month_defs leap [symmetric])
  next
    case 5 then show ?thesis using n r nk unfolding md by (cases leap) (simp_all add: month_defs leap [symmetric])
  next
    case 6 then show ?thesis using n r nk unfolding md by (cases leap) (simp_all add: month_defs leap [symmetric])
  next
    case 7 then show ?thesis using n r nk unfolding md by (cases leap) (simp_all add: month_defs leap [symmetric])
  next
    case 8 then show ?thesis using n r nk unfolding md by (cases leap) (simp_all add: month_defs leap [symmetric])
  next
    case 9 then show ?thesis using n r nk unfolding md by (cases leap) (simp_all add: month_defs leap [symmetric])
  next
    case 10 then show ?thesis using n r nk unfolding md by (cases leap) (simp_all add: month_defs leap [symmetric])
  next
    case 11 then show ?thesis using n r nk unfolding md by (cases leap) (simp_all add: month_defs leap [symmetric])
  next
    case 12 then show ?thesis using n r nk unfolding md by (cases leap) (simp_all add: month_defs leap [symmetric])
  qed
qed


lemma ord2ymd_correct:
  assumes "1 \<le> n"
  shows "1 \<le> year (ord2ymd n) \<and> 1 \<le> month (ord2ymd n) \<and> month (ord2ymd n) \<le> 12
    \<and> 1 \<le> day (ord2ymd n)
    \<and> day (ord2ymd n) \<le> days_in_month (year (ord2ymd n)) (month (ord2ymd n))
    \<and> toordinal (ord2ymd n) = n"
proof -
  define n400 where "n400 = (n - 1) div 146097"
  define r1 where "r1 = (n - 1) mod 146097"
  define n100 where "n100 = r1 div 36524"
  define r2 where "r2 = r1 mod 36524"
  define n4 where "n4 = r2 div 1461"
  define r3 where "r3 = r2 mod 1461"
  define n1 where "n1 = r3 div 365"
  define r4 where "r4 = r3 mod 365"
  define y where "y = n400 * 400 + 1 + n100 * 100 + n4 * 4 + n1"
  have unfolded: "ord2ymd n =
      (if n1 = 4 \<or> n100 = 4 then \<lparr>year = y - 1, month = 12, day = 31\<rparr>
       else case month_and_day (n1 = 3 \<and> (n4 \<noteq> 24 \<or> n100 = 3)) r4 of
              (m, d) \<Rightarrow> \<lparr>year = y, month = m, day = d\<rparr>)"
    unfolding ord2ymd_def Let_def DI400Y_def DI100Y_def DI4Y_def
      y_def r4_def n1_def r3_def n4_def r2_def n100_def r1_def n400_def
    by (rule refl)
  have e1: "n - 1 = 146097 * n400 + r1" and b1: "0 \<le> r1" "r1 < 146097"
    by (simp_all add: n400_def r1_def)
  have e2: "r1 = 36524 * n100 + r2" and b2: "0 \<le> r2" "r2 < 36524"
    by (simp_all add: n100_def r2_def)
  have e3: "r2 = 1461 * n4 + r3" and b3: "0 \<le> r3" "r3 < 1461"
    by (simp_all add: n4_def r3_def)
  have e4: "r3 = 365 * n1 + r4" and b4: "0 \<le> r4" "r4 < 365"
    by (simp_all add: n1_def r4_def)
  have q400: "0 \<le> n400" using assms by (simp add: n400_def pos_imp_zdiv_nonneg_iff)
  have q100: "0 \<le> n100" "n100 \<le> 4" using e2 b1 b2 by arith+
  have q4: "0 \<le> n4" "n4 \<le> 24" using e3 b2 b3 by arith+
  have q1: "0 \<le> n1" "n1 \<le> 4" using e4 b3 b4 by arith+
  show ?thesis
  proof (cases "n100 = 4")
    case True
    with e2 b1 b2 have "r2 = 0" by arith
    with e3 b3 q4 have "n4 = 0" "r3 = 0" by arith+
    with e4 b4 q1 have "n1 = 0" "r4 = 0" by arith+
    have yy: "y - 1 = 400 * n400 + 100 * 3 + 4 * 24 + 3 + 1"
      using True \<open>n4 = 0\<close> \<open>n1 = 0\<close> by (simp add: y_def)
    have dby: "days_before_year (y - 1) = 146097 * n400 + 36524 * 3 + 1461 * 24 + 365 * 3"
      by (rule year_structure(1) [OF _ _ _ _ _ _ yy]) simp_all
    have lp: "is_leap (y - 1)"
      using year_structure(2) [OF _ _ _ _ _ _ yy] by simp
    have res: "ord2ymd n = \<lparr>year = y - 1, month = 12, day = 31\<rparr>"
      using True by (simp add: unfolded)
    have "n = 146097 * n400 + 146097"
      using e1 e2 True \<open>r2 = 0\<close> by simp
    then show ?thesis
      unfolding res using q400 lp dby yy by (simp add: toordinal_def ymd2ord_def month_defs)
  next
    case n100: False
    with q100 have n100': "n100 \<le> 3" by simp
    show ?thesis
    proof (cases "n1 = 4")
      case True
      with e4 b3 b4 have "r4 = 0" by arith
      have "n4 \<le> 23" using e3 e4 True b2 b4 by arith
      have yy: "y - 1 = 400 * n400 + 100 * n100 + 4 * n4 + 3 + 1"
        using True by (simp add: y_def)
      have dby: "days_before_year (y - 1) = 146097 * n400 + 36524 * n100 + 1461 * n4 + 365 * 3"
        by (rule year_structure(1) [OF _ _ _ _ _ _ yy]) (use q100 n100' q4 in simp_all)
      have "is_leap (y - 1) \<longleftrightarrow> 3 = (3::int) \<and> (n4 \<noteq> 24 \<or> n100 = 3)"
        by (rule year_structure(2) [OF _ _ _ _ _ _ yy]) (use q100 n100' q4 in simp_all)
      with \<open>n4 \<le> 23\<close> have lp: "is_leap (y - 1)" by simp
      have res: "ord2ymd n = \<lparr>year = y - 1, month = 12, day = 31\<rparr>"
        using True by (simp add: unfolded)
      have "n = 146097 * n400 + 36524 * n100 + 1461 * n4 + 1461"
        using e1 e2 e3 e4 True \<open>r4 = 0\<close> by simp
      then show ?thesis
        unfolding res using q400 q100 q4 lp dby yy by (simp add: toordinal_def ymd2ord_def month_defs)
    next
      case n1: False
      with q1 have n1': "n1 \<le> 3" by simp
      define leap where "leap \<longleftrightarrow> n1 = 3 \<and> (n4 \<noteq> 24 \<or> n100 = 3)"
      have yy: "y = 400 * n400 + 100 * n100 + 4 * n4 + n1 + 1"
        by (simp add: y_def)
      have dby: "days_before_year y = 146097 * n400 + 36524 * n100 + 1461 * n4 + 365 * n1"
        by (rule year_structure(1) [OF _ _ _ _ _ _ yy]) (use q100 n100' q4 q1 n1' in simp_all)
      have lp: "leap = is_leap y"
        unfolding leap_def
        by (rule year_structure(2) [OF _ _ _ _ _ _ yy, symmetric]) (use q100 n100' q4 q1 n1' in simp_all)
      obtain m d where md: "month_and_day leap r4 = (m, d)"
        by (cases "month_and_day leap r4")
      have res: "ord2ymd n = \<lparr>year = y, month = m, day = d\<rparr>"
        using n100 n1 md by (simp add: unfolded leap_def)
      from month_and_day_correct [OF b4 lp] md
      have m: "1 \<le> m" "m \<le> 12" "1 \<le> d" "d \<le> days_in_month y m"
        "days_before_month y m + d = r4 + 1"
        by simp_all
      have "n = 146097 * n400 + 36524 * n100 + 1461 * n4 + 365 * n1 + r4 + 1"
        using e1 e2 e3 e4 by simp
      then show ?thesis
        unfolding res using q400 q100 q4 q1 m dby yy by (simp add: toordinal_def ymd2ord_def)
    qed
  qed
qed


lemma is_dateD:
  assumes "is_date d"
  shows "1 \<le> year d" "year d \<le> 9999" "1 \<le> month d" "month d \<le> 12" "1 \<le> day d"
    "day d \<le> days_in_month (year d) (month d)"
  using assms by (simp_all add: is_date_def check_date_fields_def MAXYEAR_def)

lemma toordinal_less:
  assumes a: "is_date a" and b: "is_date b" and after: "date_after b a"
  shows "toordinal a < toordinal b"
proof -
  note A = is_dateD [OF a] and B = is_dateD [OF b]
  have pa: "0 \<le> days_before_month (year a) (month a)"
    and pb: "0 \<le> days_before_month (year b) (month b)"
    using A B by (simp_all add: days_before_month_ge)
  consider "year a < year b" | "year a = year b" "month a < month b"
    | "year a = year b" "month a = month b" "day a < day b"
    using after unfolding date_after_def by blast
  then show ?thesis
  proof cases
    case 1
    have "days_before_month (year a) (month a) + days_in_month (year a) (month a)
        \<le> (if is_leap (year a) then 366 else 365)"
      using A by (intro days_before_month_end)
    moreover have "days_before_year (year a) + (if is_leap (year a) then 366 else 365)
        \<le> days_before_year (year b)"
      using 1 by (rule days_before_year_next)
    ultimately show ?thesis
      using A(6) B(5) pb unfolding toordinal_def ymd2ord_def by linarith
  next
    case 2
    have "days_before_month (year a) (month a) + days_in_month (year a) (month a)
        \<le> days_before_month (year a) (month b)"
      using A(3) 2(2) B(4) by (rule days_before_month_next)
    then show ?thesis
      using 2(1) A(6) B(5) unfolding toordinal_def ymd2ord_def by simp
  next
    case 3
    then show ?thesis unfolding toordinal_def ymd2ord_def by simp
  qed
qed

lemma date_trichotomy:
  fixes a b :: date
  shows "a = b \<or> date_after a b \<or> date_after b a"
  unfolding date_after_def by (cases a, cases b) auto

lemma toordinal_inject:
  assumes "is_date a" "is_date b" "toordinal a = toordinal b"
  shows "a = b"
  using date_trichotomy [of a b] toordinal_less [of a b] toordinal_less [of b a] assms
  by auto

lemma date_after_iff:
  assumes "is_date a" "is_date b"
  shows "date_after a b \<longleftrightarrow> toordinal b < toordinal a"
  using date_trichotomy [of a b] toordinal_less [of a b] toordinal_less [of b a] assms
  by auto

lemma toordinal_bounds:
  assumes "is_date d"
  shows "1 \<le> toordinal d" "toordinal d \<le> MAXORDINAL"
proof -
  note D = is_dateD [OF assms]
  have "days_before_year 1 \<le> days_before_year (year d)"
    using D(1) by (rule days_before_year_mono)
  moreover have "0 \<le> days_before_month (year d) (month d)"
    using D by (simp add: days_before_month_ge)
  ultimately show "1 \<le> toordinal d"
    using D(5) unfolding toordinal_def ymd2ord_def days_before_year_1 by simp
  have "days_before_month (year d) (month d) + days_in_month (year d) (month d)
      \<le> (if is_leap (year d) then 366 else 365)"
    using D by (intro days_before_month_end)
  moreover have "days_before_year (year d) + (if is_leap (year d) then 366 else 365)
      \<le> days_before_year 10000"
    by (rule days_before_year_next) (use D(2) in simp)
  ultimately show "toordinal d \<le> MAXORDINAL"
    using D(6) unfolding toordinal_def ymd2ord_def days_before_year_10000 MAXORDINAL_def
    by linarith
qed

lemma ord2ymd_is_date:
  assumes "1 \<le> n" "n \<le> MAXORDINAL"
  shows "is_date (ord2ymd n)" "toordinal (ord2ymd n) = n"
proof -
  let ?d = "ord2ymd n"
  note C = ord2ymd_correct [OF assms(1)]
  show ord: "toordinal ?d = n" using C by simp
  have "year ?d \<le> 9999"
  proof (rule ccontr)
    assume "\<not> year ?d \<le> 9999"
    then have "days_before_year 10000 \<le> days_before_year (year ?d)"
      by (intro days_before_year_mono) simp
    moreover have "0 \<le> days_before_month (year ?d) (month ?d)"
      using C by (simp add: days_before_month_ge)
    ultimately have "MAXORDINAL < toordinal ?d"
      using C unfolding toordinal_def ymd2ord_def days_before_year_10000 MAXORDINAL_def
      by linarith
    with ord assms(2) show False by simp
  qed
  then show "is_date ?d"
    using C by (simp add: is_date_def check_date_fields_def MAXYEAR_def)
qed

lemma ord2ymd_toordinal:
  assumes "is_date d"
  shows "ord2ymd (toordinal d) = d"
proof -
  note B = toordinal_bounds [OF assms]
  show ?thesis
    by (rule toordinal_inject [OF ord2ymd_is_date(1) [OF B] assms ord2ymd_is_date(2) [OF B]])
qed

section \<open>Properties of formatting and parsing\<close>

lemma char_of_iff: "char_of (n::nat) = c \<longleftrightarrow> n mod 256 = code_point c"
  unfolding code_point_def using of_char_eq_iff [of "char_of n" c, where ?'a = nat]
  by (simp del: of_char_eq_iff)

lemma char_of_iff': "c = char_of (n::nat) \<longleftrightarrow> n mod 256 = code_point c"
  using char_of_iff [of n c] by auto

lemmas char_eval = char_of_iff char_of_iff' code_point_def char_in_def isdigit_def isspace_def
  number_char_def digit_char_def

lemma code_point_digit_char:
  "0 \<le> k \<Longrightarrow> k \<le> 9 \<Longrightarrow> code_point (digit_char k) = 48 + nat k"
  by (simp add: code_point_def digit_char_def)

lemma isdigit_digit_char: "0 \<le> k \<Longrightarrow> k \<le> 9 \<Longrightarrow> isdigit (digit_char k)"
  by (simp add: isdigit_def code_point_digit_char)

lemma digit_value_digit_char: "0 \<le> k \<Longrightarrow> k \<le> 9 \<Longrightarrow> digit_value (digit_char k) = k"
  by (simp add: digit_value_def code_point_digit_char)

lemma isdigit_not:
  assumes "isdigit c"
  shows "\<not> isspace c" "c \<noteq> CHR ''+''" "c \<noteq> CHR ''-''" "c \<noteq> CHR ''_''" "number_char c"
  using assms by (auto simp: isdigit_def isspace_def number_char_def code_point_def)

lemma double_underscore_digits: "list_all isdigit ds \<Longrightarrow> \<not> double_underscore ds"
  by (induction ds rule: double_underscore.induct) (auto dest: isdigit_not(4))

lemma py_int_digits:
  assumes "ds \<noteq> []" "list_all isdigit ds" "length ds \<le> int_max_str_digits"
  shows "py_int ds = Some (digits_value ds)"
proof -
  obtain c cs where ds: "ds = c # cs" using assms(1) by (cases ds) auto
  have c: "isdigit c" using assms(2) ds by simp
  have all: "\<forall>x\<in>set ds. number_char x" "\<forall>x\<in>set ds. isdigit x"
    using assms(2) by (auto simp: list_all_iff isdigit_not(5))
  have s1: "dropWhile isspace ds = ds" using c by (simp add: ds isdigit_not(1))
  have tw: "takeWhile number_char ds = ds" using all(1) by (simp add: takeWhile_eq_all_conv)
  have dw: "dropWhile number_char ds = []" using all(1) by simp
  have fl: "filter isdigit ds = ds" using all(2) by (simp add: filter_id_conv)
  have hd: "hd ds \<noteq> CHR ''+''" "hd ds \<noteq> CHR ''-''" "hd ds \<noteq> CHR ''_''"
    using c by (simp_all add: ds isdigit_not)
  have "isdigit (last ds)" using all(2) assms(1) by simp
  then have lst: "last ds \<noteq> CHR ''_''" by (rule isdigit_not(4))
  show ?thesis
    unfolding py_int_def s1 Let_def
    using hd lst assms double_underscore_digits [OF assms(2)]
    by (simp add: tw dw fl)
qed


lemma fmt_Y_four:
  "1000 \<le> y \<Longrightarrow> fmt_Y y = [digit_char (y div 1000 mod 10), digit_char (y div 100 mod 10),
     digit_char (y div 10 mod 10), digit_char (y mod 10)]"
  by (simp add: fmt_Y_def)

lemma fmt_Y_props:
  assumes "1000 \<le> y"
  shows "length (fmt_Y y) = 4" "list_all isdigit (fmt_Y y)" "fmt_Y y \<noteq> []"
  by (simp_all add: fmt_Y_four [OF assms] isdigit_digit_char)

lemma fmt_2_props:
  "length (fmt_2 k) = 2" "list_all isdigit (fmt_2 k)" "fmt_2 k \<noteq> []"
  by (simp_all add: fmt_2_def isdigit_digit_char)

lemma digits_value_fmt_2:
  assumes "0 \<le> k" "k < 100"
  shows "digits_value (fmt_2 k) = k"
proof -
  have "k div 10 < 10" using assms by simp
  then have "k div 10 mod 10 = k div 10" using assms by simp
  then show ?thesis
    by (simp add: digits_value_def fmt_2_def digit_value_digit_char)
qed

lemma digits_value_fmt_Y:
  assumes "1000 \<le> y" "y < 10000"
  shows "digits_value (fmt_Y y) = y"
proof -
  define q1 where "q1 = y div 10"
  define q2 where "q2 = q1 div 10"
  define q3 where "q3 = q2 div 10"
  have d100: "y div 100 = q2" and d1000: "y div 1000 = q3"
    unfolding q3_def q2_def q1_def by (simp_all add: div_mult2_eq [symmetric])
  have e1: "y = 10 * q1 + y mod 10" by (simp add: q1_def)
  have e2: "q1 = 10 * q2 + q1 mod 10" by (simp add: q2_def)
  have e3: "q2 = 10 * q3 + q2 mod 10" by (simp add: q3_def)
  have "q3 < 10" "0 \<le> q3" using assms unfolding d1000 [symmetric] by simp_all
  then have e4: "q3 mod 10 = q3" by simp
  have "digits_value (fmt_Y y) = 10 * (10 * (10 * (q3 mod 10) + q2 mod 10) + q1 mod 10) + y mod 10"
    by (simp add: digits_value_def fmt_Y_four [OF assms(1)] digit_value_digit_char d100 d1000
        q1_def [symmetric])
  also have "\<dots> = y" using e1 e2 e3 e4 by simp
  finally show ?thesis .
qed

lemma py_int_fmt_Y: "1000 \<le> y \<Longrightarrow> y < 10000 \<Longrightarrow> py_int (fmt_Y y) = Some y"
  by (simp add: py_int_digits fmt_Y_props int_max_str_digits_def digits_value_fmt_Y)

lemma py_int_fmt_2: "0 \<le> k \<Longrightarrow> k < 100 \<Longrightarrow> py_int (fmt_2 k) = Some k"
  by (simp add: py_int_digits fmt_2_props int_max_str_digits_def digits_value_fmt_2)

lemma re_Y_fmt: "1000 \<le> y \<Longrightarrow> re_Y (fmt_Y y @ t) = [(fmt_Y y, t)]"
  by (simp add: re_Y_def fmt_Y_props)

lemma re_lit_simps:
  "re_lit c (c # t) = [t]" "x \<noteq> c \<Longrightarrow> re_lit c (x # t) = []" "re_lit c [] = []"
  by (simp_all add: re_lit_def)

lemma re_m_fmt:
  assumes "1 \<le> m" "m \<le> 12"
  shows "re_m (fmt_2 m @ t) =
    (fmt_2 m, t) # (if 10 \<le> m then [([digit_char 1], digit_char (m mod 10) # t)] else [])"
  using assms by (cases m rule: month_cases) (simp_all add: fmt_2_def re_m_def char_eval)


lemma re_d_fmt:
  assumes "1 \<le> d" "d \<le> 31"
  shows "\<exists>rest. re_d (fmt_2 d) = (fmt_2 d, []) # rest"
proof -
  define a where "a = d div 10"
  define b where "b = d mod 10"
  have b: "0 \<le> b" "b \<le> 9" by (simp_all add: b_def)
  have d: "d = 10 * a + b" by (simp add: a_def b_def)
  have f: "fmt_2 d = [digit_char a, digit_char b]"
    using assms by (simp add: fmt_2_def a_def b_def)
  have cb: "code_point (digit_char b) = 48 + nat b"
    using b by (rule code_point_digit_char)
  have "a = 0 \<or> a = 1 \<or> a = 2 \<or> a = 3" using assms d b by arith
  then show ?thesis
  proof (elim disjE)
    assume "a = 0"
    with assms d b have "1 \<le> b" by simp
    with \<open>a = 0\<close> b show ?thesis
      unfolding f by (simp add: re_d_def char_in_def isdigit_def cb) (auto simp: char_eval)
  next
    assume "a = 1"
    with b show ?thesis
      unfolding f by (simp add: re_d_def char_in_def isdigit_def cb) (auto simp: char_eval)
  next
    assume "a = 2"
    with b show ?thesis
      unfolding f by (simp add: re_d_def char_in_def isdigit_def cb) (auto simp: char_eval)
  next
    assume "a = 3"
    with assms d b have "b \<le> 1" by simp
    with \<open>a = 3\<close> b show ?thesis
      unfolding f by (simp add: re_d_def char_in_def isdigit_def cb) (auto simp: char_eval)
  qed
qed


lemma digit_char_not_dash: "0 \<le> k \<Longrightarrow> k \<le> 9 \<Longrightarrow> digit_char k \<noteq> CHR ''-''"
  using isdigit_not(3) [OF isdigit_digit_char] by simp

lemma strptime_strftime:
  assumes "is_date d" and y: "1000 \<le> year d"
  shows "strptime_Ymd (strftime_Ymd d) = Some d"
proof -
  note D = is_dateD [OF assms(1)]
  have dd: "day d \<le> 31"
    using D(6) days_in_month_le [OF D(3,4), of "year d"] by simp
  obtain rest where rd: "re_d (fmt_2 (day d)) = (fmt_2 (day d), []) # rest"
    using re_d_fmt [OF D(5) dd] by blast
  have nd: "digit_char (month d mod 10) \<noteq> CHR ''-''"
    by (rule digit_char_not_dash) simp_all
  have fields: "date_of_fields (fmt_Y (year d)) (fmt_2 (month d)) (fmt_2 (day d)) = Some d"
    using D dd assms
    by (simp add: date_of_fields_def py_int_fmt_Y py_int_fmt_2 is_date_def)
  show ?thesis
    unfolding strptime_Ymd_def strftime_Ymd_def
    by (simp add: re_Y_fmt [OF y] re_lit_simps re_m_fmt [OF D(3,4)] rd nd fields)
qed

lemma not_isdigit_dash: "\<not> isdigit CHR ''-''"
  by (simp add: isdigit_def code_point_def)

lemma re_Y_short_year:
  assumes "y < 1000"
  shows "re_Y (fmt_Y y @ CHR ''-'' # t) = []"
  using assms by (simp add: re_Y_def fmt_Y_def not_isdigit_dash)

lemma strptime_short_year:
  assumes "year d < 1000"
  shows "strptime_Ymd (strftime_Ymd d) = None"
  unfolding strptime_Ymd_def strftime_Ymd_def
  by (simp add: re_Y_short_year [OF assms])

lemma strptime_strftime_iff:
  assumes "is_date d"
  shows "strptime_Ymd (strftime_Ymd d) = (if 1000 \<le> year d then Some d else None)"
  using strptime_strftime [OF assms] strptime_short_year [of d] by simp

lemma date_of_fields_is_date: "date_of_fields Y m dd = Some d \<Longrightarrow> is_date d"
  unfolding date_of_fields_def is_date_def
  by (cases "py_int Y"; cases "py_int m"; cases "py_int dd") (auto split: if_splits)

lemma strptime_Ymd_is_date:
  assumes "strptime_Ymd s = Some d"
  shows "is_date d"
proof -
  define paths where "paths = [(Y, m, d, r5). (Y, r1) \<leftarrow> re_Y s, r2 \<leftarrow> re_lit CHR ''-'' r1,
    (m, r3) \<leftarrow> re_m r2, r4 \<leftarrow> re_lit CHR ''-'' r3, (d, r5) \<leftarrow> re_d r4]"
  have eq: "strptime_Ymd s =
    (case paths of [] \<Rightarrow> None
     | (Y, m, d, r) # _ \<Rightarrow> if r \<noteq> [] then None else date_of_fields Y m d)"
    unfolding strptime_Ymd_def paths_def by (rule refl)
  from assms obtain Y m dd where "date_of_fields Y m dd = Some d"
    unfolding eq by (cases paths) (auto split: if_splits)
  then show ?thesis by (rule date_of_fields_is_date)
qed

lemma strptime_Ym_is_date:
  assumes "strptime_Ym s = Some d"
  shows "is_date d"
proof -
  define paths where "paths = [(Y, m, r3). (Y, r1) \<leftarrow> re_Y s, r2 \<leftarrow> re_lit CHR ''-'' r1,
    (m, r3) \<leftarrow> re_m r2]"
  have eq: "strptime_Ym s =
    (case paths of [] \<Rightarrow> None
     | (Y, m, r) # _ \<Rightarrow> if r \<noteq> [] then None else date_of_fields Y m ''1'')"
    unfolding strptime_Ym_def paths_def by (rule refl)
  from assms obtain Y m where "date_of_fields Y m ''1'' = Some d"
    unfolding eq by (cases paths) (auto split: if_splits)
  then show ?thesis by (rule date_of_fields_is_date)
qed

lemma strftime_inject:
  assumes "is_date a" "1000 \<le> year a" "is_date b" "1000 \<le> year b"
    and "strftime_Ymd a = strftime_Ymd b"
  shows "a = b"
  using strptime_strftime [OF assms(1,2)] strptime_strftime [OF assms(3,4)] assms(5)
  by (metis option.inject)

lemma year_mono:
  assumes "is_date a" "is_date b" "toordinal a \<le> toordinal b"
  shows "year a \<le> year b"
proof (rule ccontr)
  assume "\<not> year a \<le> year b"
  then have "date_after a b" by (simp add: date_after_def)
  with assms(1,2) have "toordinal b < toordinal a" by (simp add: date_after_iff)
  with assms(3) show False by simp
qed

section \<open>Properties of main.py\<close>

subsection \<open>Rows\<close>

lemmas block_defs = historical_row_def historical_block_def archive_row_def archive_block_def
  and_then_def int_of_text_def suppress_ValueError_def

lemma merge_inner: "fold (\<lambda>tr tables. tables @ [tr]) rows acc = acc @ rows"
  by (induction rows arbitrary: acc) simp_all

lemma merge_outer:
  "fold (\<lambda>table_soup tables. fold (\<lambda>tr tables. tables @ [tr]) (drop 1 table_soup) tables) ts acc
     = acc @ concat (map (drop 1) ts)"
  by (induction ts arbitrary: acc) (simp_all add: merge_inner)

lemma merge_concat: "merge_and_extract_tables ts = concat (map (drop 1) ts)"
  using merge_outer [of ts "[]"] by simp

lemma historical_row_cases:
  assumes "3 \<le> length row"
  shows "historical_row row prices =
     (case py_int (row ! 1) of None \<Rightarrow> Inr prices | Some s \<Rightarrow>
      (case py_int (row ! 2) of None \<Rightarrow> Inr prices | Some b \<Rightarrow>
        if 0 < s \<and> 0 < b then Inr (prices(row ! 0 \<mapsto> \<lparr>sell = s, buy = b\<rparr>)) else Inr prices))"
proof -
  from assms have "getitem row 0 = Inr (row ! 0)" "getitem row 1 = Inr (row ! 1)"
    "getitem row 2 = Inr (row ! 2)"
    by (auto simp: getitem_def)
  then show ?thesis
    by (simp add: block_defs split: option.splits)
qed

lemma archive_row_cases:
  assumes "4 \<le> length row"
  shows "archive_row row prices =
     (case py_int (row ! 2) of None \<Rightarrow> Inr prices | Some s \<Rightarrow>
      (case py_int (row ! 3) of None \<Rightarrow> Inr prices | Some b \<Rightarrow>
        if 0 < s \<and> 0 < b then Inr (prices(str_lower (row ! 0) \<mapsto> Prices \<lparr>sell = s, buy = b\<rparr>))
        else Inr prices))"
proof -
  from assms have "getitem row 0 = Inr (row ! 0)" "getitem row 2 = Inr (row ! 2)"
    "getitem row 3 = Inr (row ! 3)"
    by (auto simp: getitem_def)
  then show ?thesis
    by (simp add: block_defs Let_def split: option.splits)
qed

lemma historical_rows_append:
  "historical_rows (before @ after) prices =
     (case historical_rows before prices of Inl e \<Rightarrow> Inl e | Inr p \<Rightarrow> historical_rows after p)"
  by (induction before arbitrary: prices) (simp_all split: sum.splits)

lemma archive_rows_append:
  "archive_rows (before @ after) prices =
     (case archive_rows before prices of Inl e \<Rightarrow> Inl e | Inr p \<Rightarrow> archive_rows after p)"
  by (induction before arbitrary: prices) (simp_all split: sum.splits)

lemma historical_rows_skip:
  assumes "\<And>p. historical_row row p = Inr p"
  shows "historical_rows (before @ row # after) prices = historical_rows (before @ after) prices"
  by (simp add: historical_rows_append assms split: sum.splits)

lemma archive_rows_skip:
  assumes "\<And>p. archive_row row p = Inr p"
  shows "archive_rows (before @ row # after) prices = archive_rows (before @ after) prices"
  by (simp add: archive_rows_append assms split: sum.splits)

lemma three_cells:
  assumes "3 \<le> length row"
  obtains cells where "row = row ! 0 # row ! 1 # row ! 2 # cells"
proof -
  from assms obtain a r1 where 1: "row = a # r1" by (cases row) auto
  with assms obtain b r2 where 2: "r1 = b # r2" by (cases r1) auto
  with 1 assms obtain c r3 where 3: "r2 = c # r3" by (cases r2) auto
  from 1 2 3 have "row = row ! 0 # row ! 1 # row ! 2 # r3" by simp
  then show ?thesis by (rule that)
qed

lemma four_cells:
  assumes "4 \<le> length row"
  obtains cells where "row = row ! 0 # row ! 1 # row ! 2 # row ! 3 # cells"
proof -
  from assms obtain a r1 where 1: "row = a # r1" by (cases row) auto
  with assms obtain b r2 where 2: "r1 = b # r2" by (cases r1) auto
  with 1 assms obtain c r3 where 3: "r2 = c # r3" by (cases r2) auto
  with 1 2 assms obtain d r4 where 4: "r3 = d # r4" by (cases r3) auto
  from 1 2 3 4 have "row = row ! 0 # row ! 1 # row ! 2 # row ! 3 # r4"
    by (simp add: numeral_3_eq_3)
  then show ?thesis by (rule that)
qed

lemma spec_historical_entry_cases:
  assumes "3 \<le> length row"
  shows "spec_historical_entry row =
     (case py_int (row ! 1) of None \<Rightarrow> None | Some s \<Rightarrow>
      (case py_int (row ! 2) of None \<Rightarrow> None | Some b \<Rightarrow>
        if 0 < s \<and> 0 < b then Some (row ! 0, \<lparr>sell = s, buy = b\<rparr>) else None))"
proof -
  from assms obtain cells where "row = row ! 0 # row ! 1 # row ! 2 # cells" by (rule three_cells)
  then have "spec_historical_entry row = spec_historical_entry (row ! 0 # row ! 1 # row ! 2 # cells)"
    by simp
  then show ?thesis by (simp split: option.splits)
qed

lemma spec_archive_entry_cases:
  assumes "4 \<le> length row"
  shows "spec_archive_entry row =
     (case py_int (row ! 2) of None \<Rightarrow> None | Some s \<Rightarrow>
      (case py_int (row ! 3) of None \<Rightarrow> None | Some b \<Rightarrow>
        if 0 < s \<and> 0 < b then Some (str_lower (row ! 0), Prices \<lparr>sell = s, buy = b\<rparr>) else None))"
proof -
  from assms obtain cells where "row = row ! 0 # row ! 1 # row ! 2 # row ! 3 # cells"
    by (rule four_cells)
  then have "spec_archive_entry row
      = spec_archive_entry (row ! 0 # row ! 1 # row ! 2 # row ! 3 # cells)"
    by simp
  then show ?thesis by (simp split: option.splits)
qed

lemma historical_row_spec:
  assumes "3 \<le> length row"
  shows "historical_row row prices =
    Inr (case spec_historical_entry row of None \<Rightarrow> prices | Some (k, v) \<Rightarrow> prices(k \<mapsto> v))"
  by (simp add: historical_row_cases [OF assms] spec_historical_entry_cases [OF assms]
      split: option.splits)

lemma archive_row_spec:
  assumes "4 \<le> length row"
  shows "archive_row row prices =
    Inr (case spec_archive_entry row of None \<Rightarrow> prices | Some (k, v) \<Rightarrow> prices(k \<mapsto> v))"
  by (simp add: archive_row_cases [OF assms] spec_archive_entry_cases [OF assms]
      split: option.splits)

lemma historical_rows_spec:
  assumes "\<forall>row\<in>set table. 3 \<le> length row"
  shows "historical_rows table prices = Inr (spec_prices spec_historical_entry table prices)"
  using assms
  by (induction table arbitrary: prices) (simp_all add: spec_prices_def historical_row_spec)

lemma archive_rows_spec:
  assumes "\<forall>row\<in>set table. 4 \<le> length row"
  shows "archive_rows table prices = Inr (spec_prices spec_archive_entry table prices)"
  using assms
  by (induction table arbitrary: prices) (simp_all add: spec_prices_def archive_row_spec)

lemma spec_prices_other:
  assumes "\<forall>r\<in>set rows. \<forall>v. entry r \<noteq> Some (k, v)"
  shows "spec_prices entry rows prices k = prices k"
  using assms
proof (induction rows arbitrary: prices)
  case Nil
  show ?case by (simp add: spec_prices_def)
next
  case (Cons r rows)
  from Cons.prems have r: "\<forall>v. entry r \<noteq> Some (k, v)"
    and rows: "\<forall>r\<in>set rows. \<forall>v. entry r \<noteq> Some (k, v)" by simp_all
  define p where "p = (case entry r of None \<Rightarrow> prices | Some (k, v) \<Rightarrow> prices(k \<mapsto> v))"
  have "spec_prices entry (r # rows) prices k = spec_prices entry rows p k"
    by (simp add: spec_prices_def p_def)
  also have "\<dots> = p k"
    using rows by (rule Cons.IH)
  also have "\<dots> = prices k"
    unfolding p_def using r by (cases "entry r") auto
  finally show ?case .
qed

lemma spec_prices_retained:
  assumes "entry row = Some (k, v)" "\<forall>r\<in>set after. \<forall>v. entry r \<noteq> Some (k, v)"
  shows "spec_prices entry (before @ row # after) prices k = Some v"
proof -
  define p where "p = (spec_prices entry before prices)(k \<mapsto> v)"
  have "spec_prices entry (before @ row # after) prices k = spec_prices entry after p k"
    by (simp add: spec_prices_def assms(1) p_def)
  also have "\<dots> = p k"
    using assms(2) by (rule spec_prices_other)
  finally show ?thesis by (simp add: p_def)
qed


lemma spec_historical_entry_key:
  assumes "3 \<le> length r" "spec_historical_entry r = Some (k, v)"
  shows "k = r ! 0"
  using assms(2) unfolding spec_historical_entry_cases [OF assms(1)]
  by (auto split: option.splits if_splits)

lemma spec_archive_entry_key:
  assumes "4 \<le> length r" "spec_archive_entry r = Some (k, v)"
  shows "k = str_lower (r ! 0)"
  using assms(2) unfolding spec_archive_entry_cases [OF assms(1)]
  by (auto split: option.splits if_splits)

lemma historical_rows_retained:
  assumes "\<forall>r\<in>set (before @ after). 3 \<le> length r" "3 \<le> length row"
    and "spec_historical_entry row = Some (k, q)" "k \<notin> (\<lambda>r. r ! 0) ` set after"
  shows "\<exists>result. historical_rows (before @ row # after) prices = Inr result \<and> result k = Some q"
proof -
  from assms(1,2) have "\<forall>r\<in>set (before @ row # after). 3 \<le> length r" by auto
  then have "historical_rows (before @ row # after) prices
      = Inr (spec_prices spec_historical_entry (before @ row # after) prices)"
    by (rule historical_rows_spec)
  moreover have "\<forall>r\<in>set after. \<forall>v. spec_historical_entry r \<noteq> Some (k, v)"
    using assms(1,4) by (auto dest: spec_historical_entry_key)
  with assms(3) have "spec_prices spec_historical_entry (before @ row # after) prices k = Some q"
    by (rule spec_prices_retained)
  ultimately show ?thesis by blast
qed

lemma archive_rows_retained:
  assumes "\<forall>r\<in>set (before @ after). 4 \<le> length r" "4 \<le> length row"
    and "spec_archive_entry row = Some (k, q)" "k \<notin> (\<lambda>r. str_lower (r ! 0)) ` set after"
  shows "\<exists>result. archive_rows (before @ row # after) prices = Inr result \<and> result k = Some q"
proof -
  from assms(1,2) have "\<forall>r\<in>set (before @ row # after). 4 \<le> length r" by auto
  then have "archive_rows (before @ row # after) prices
      = Inr (spec_prices spec_archive_entry (before @ row # after) prices)"
    by (rule archive_rows_spec)
  moreover have "\<forall>r\<in>set after. \<forall>v. spec_archive_entry r \<noteq> Some (k, v)"
    using assms(1,4) by (auto dest: spec_archive_entry_key)
  with assms(3) have "spec_prices spec_archive_entry (before @ row # after) prices k = Some q"
    by (rule spec_prices_retained)
  ultimately show ?thesis by blast
qed

lemma crawl_soup_200:
  "post url post_data = Response 200 html \<Longrightarrow>
   crawl_soup post url post_data = (Inr html, [(url, post_data)])"
  by (simp add: crawl_soup_def)

lemma read_historical_currency_spec:
  assumes "strptime_Ym ym = Some d"
    and "post (BONBAST_URL @ ''/historical'') [(''date'', strftime_Ymd d), (''currency'', currency)]
      = Response 200 (table_soup # tables)"
    and "\<forall>r\<in>set (drop 1 table_soup). 3 \<le> length r"
  shows "fst (read_historical_currency post currency ym)
    = Inr (spec_prices spec_historical_entry (drop 1 table_soup) Map.empty)"
  using assms(1,2) historical_rows_spec [OF assms(3)]
  by (simp add: read_historical_currency_def crawl_soup_200 del: One_nat_def)

lemma read_archive_spec:
  assumes "strptime_Ymd ymd = Some d"
    and "post (BONBAST_URL @ ''/archive'') [(''date'', strftime_Ymd d)] = Response 200 soup"
    and "\<forall>r\<in>set (merge_and_extract_tables (butlast soup)). 4 \<le> length r"
  shows "fst (read_archive post ymd)
    = Inr (spec_prices spec_archive_entry (merge_and_extract_tables (butlast soup))
        [''date'' \<mapsto> Str (strftime_Ymd d)])"
  using assms(1,2) archive_rows_spec [OF assms(3)]
  by (simp add: read_archive_def crawl_soup_200 del: merge_and_extract_tables.simps)

lemma historical_row_not_integer:
  assumes "1 < length row" "py_int (row ! 1) = None"
  shows "historical_row row prices = Inr prices"
  using assms by (auto simp: block_defs getitem_def)

lemma archive_row_not_integer:
  assumes "2 < length row" "py_int (row ! 2) = None"
  shows "archive_row row prices = Inr prices"
  using assms by (auto simp: block_defs getitem_def Let_def)

text \<open>
  Claim C3, amended. In a table whose rows all have their sell and buy cells (three cells
  for \<open>/historical\<close>, four for \<open>/archive/\<close>) the loop of the handler raises nothing and returns
  the mapping it started with, updated row after row with the entries of the rows whose sell
  and buy cells are positive integers, and this is what the handler returns. A row with
  these cells contributes nothing when one of the two is not an integer or is not positive:
  processing it leaves the mapping as it is and the loop gives what it gives without the
  row. A row whose sell and buy cells are positive integers is entered under its key, and
  the mapping returned has these prices under that key unless a later row has the same
  key. A row whose sell cell is there and is not an integer is skipped as well, with or
  without a buy cell.
\<close>

theorem rows_skipped_or_retained:
  "((\<forall>r\<in>set table. 3 \<le> length r) \<longrightarrow>
      historical_rows table prices = Inr (spec_prices spec_historical_entry table prices))
   \<and> (strptime_Ym ym = Some d
        \<and> post (BONBAST_URL @ ''/historical'') [(''date'', strftime_Ymd d), (''currency'', currency)]
            = Response 200 (table_soup # tables)
        \<and> (\<forall>r\<in>set (drop 1 table_soup). 3 \<le> length r)
      \<longrightarrow> fst (read_historical_currency post currency ym)
          = Inr (spec_prices spec_historical_entry (drop 1 table_soup) Map.empty))
   \<and> (3 \<le> length row \<longrightarrow>
        ((py_int (row ! 1) = None \<or> py_int (row ! 2) = None
            \<or> (\<exists>s b. py_int (row ! 1) = Some s \<and> py_int (row ! 2) = Some b \<and> (s \<le> 0 \<or> b \<le> 0)))
          \<longrightarrow> spec_historical_entry row = None
            \<and> historical_row row prices = Inr prices
            \<and> historical_rows (before @ row # after) prices
                = historical_rows (before @ after) prices)
        \<and> (\<forall>s b. py_int (row ! 1) = Some s \<and> py_int (row ! 2) = Some b \<and> 0 < s \<and> 0 < b \<longrightarrow>
              spec_historical_entry row = Some (row ! 0, \<lparr>sell = s, buy = b\<rparr>)
            \<and> historical_row row prices = Inr (prices(row ! 0 \<mapsto> \<lparr>sell = s, buy = b\<rparr>))
            \<and> ((\<forall>r\<in>set (before @ after). 3 \<le> length r) \<and> row ! 0 \<notin> (\<lambda>r. r ! 0) ` set after
                \<longrightarrow> (\<exists>result. historical_rows (before @ row # after) prices = Inr result
                      \<and> result (row ! 0) = Some \<lparr>sell = s, buy = b\<rparr>))))
   \<and> (1 < length row \<and> py_int (row ! 1) = None \<longrightarrow> historical_row row prices = Inr prices)
   \<and> ((\<forall>r\<in>set table. 4 \<le> length r) \<longrightarrow>
      archive_rows table items = Inr (spec_prices spec_archive_entry table items))
   \<and> (strptime_Ymd ymd = Some d'
        \<and> post (BONBAST_URL @ ''/archive'') [(''date'', strftime_Ymd d')] = Response 200 soup
        \<and> (\<forall>r\<in>set (merge_and_extract_tables (butlast soup)). 4 \<le> length r)
      \<longrightarrow> fst (read_archive post ymd)
          = Inr (spec_prices spec_archive_entry (merge_and_extract_tables (butlast soup))
              [''date'' \<mapsto> Str (strftime_Ymd d')]))
   \<and> (4 \<le> length row \<longrightarrow>
        ((py_int (row ! 2) = None \<or> py_int (row ! 3) = None
            \<or> (\<exists>s b. py_int (row ! 2) = Some s \<and> py_int (row ! 3) = Some b \<and> (s \<le> 0 \<or> b \<le> 0)))
          \<longrightarrow> spec_archive_entry row = None
            \<and> archive_row row items = Inr items
            \<and> archive_rows (before @ row # after) items = archive_rows (before @ after) items)
        \<and> (\<forall>s b. py_int (row ! 2) = Some s \<and> py_int (row ! 3) = Some b \<and> 0 < s \<and> 0 < b \<longrightarrow>
              spec_archive_entry row = Some (str_lower (row ! 0), Prices \<lparr>sell = s, buy = b\<rparr>)
            \<and> archive_row row items
                = Inr (items(str_lower (row ! 0) \<mapsto> Prices \<lparr>sell = s, buy = b\<rparr>))
            \<and> ((\<forall>r\<in>set (before @ after). 4 \<le> length r)
                  \<and> str_lower (row ! 0) \<notin> (\<lambda>r. str_lower (r ! 0)) ` set after
                \<longrightarrow> (\<exists>result. archive_rows (before @ row # after) items = Inr result
                      \<and> result (str_lower (row ! 0)) = Some (Prices \<lparr>sell = s, buy = b\<rparr>)))))
   \<and> (2 < length row \<and> py_int (row ! 2) = None \<longrightarrow> archive_row row items = Inr items)"
proof (intro conjI impI allI; (elim conjE)?)
  assume "\<forall>r\<in>set table. 3 \<le> length r"
  then show "historical_rows table prices = Inr (spec_prices spec_historical_entry table prices)"
    by (rule historical_rows_spec)
next
  assume "strptime_Ym ym = Some d"
    "post (BONBAST_URL @ ''/historical'') [(''date'', strftime_Ymd d), (''currency'', currency)]
      = Response 200 (table_soup # tables)"
    "\<forall>r\<in>set (drop 1 table_soup). 3 \<le> length r"
  then show "fst (read_historical_currency post currency ym)
      = Inr (spec_prices spec_historical_entry (drop 1 table_soup) Map.empty)"
    by (rule read_historical_currency_spec)
next
  assume l: "3 \<le> length row"
    and c: "py_int (row ! 1) = None \<or> py_int (row ! 2) = None
      \<or> (\<exists>s b. py_int (row ! 1) = Some s \<and> py_int (row ! 2) = Some b \<and> (s \<le> 0 \<or> b \<le> 0))"
  from c show e: "spec_historical_entry row = None"
    by (auto simp: spec_historical_entry_cases [OF l] split: option.splits)
  then have skip: "historical_row row p = Inr p" for p
    by (simp add: historical_row_spec [OF l])
  show "historical_row row prices = Inr prices" by (rule skip)
  show "historical_rows (before @ row # after) prices = historical_rows (before @ after) prices"
    by (rule historical_rows_skip) (rule skip)
next
  fix s b
  assume l: "3 \<le> length row"
    and c: "py_int (row ! 1) = Some s" "py_int (row ! 2) = Some b" "0 < s" "0 < b"
  from c show e: "spec_historical_entry row = Some (row ! 0, \<lparr>sell = s, buy = b\<rparr>)"
    by (simp add: spec_historical_entry_cases [OF l])
  then show "historical_row row prices = Inr (prices(row ! 0 \<mapsto> \<lparr>sell = s, buy = b\<rparr>))"
    by (simp add: historical_row_spec [OF l])
  assume "\<forall>r\<in>set (before @ after). 3 \<le> length r" "row ! 0 \<notin> (\<lambda>r. r ! 0) ` set after"
  from historical_rows_retained [OF this(1) l e this(2)]
  show "\<exists>result. historical_rows (before @ row # after) prices = Inr result
      \<and> result (row ! 0) = Some \<lparr>sell = s, buy = b\<rparr>" .
next
  assume "1 < length row" "py_int (row ! 1) = None"
  then show "historical_row row prices = Inr prices" by (rule historical_row_not_integer)
next
  assume "\<forall>r\<in>set table. 4 \<le> length r"
  then show "archive_rows table items = Inr (spec_prices spec_archive_entry table items)"
    by (rule archive_rows_spec)
next
  assume "strptime_Ymd ymd = Some d'"
    "post (BONBAST_URL @ ''/archive'') [(''date'', strftime_Ymd d')] = Response 200 soup"
    "\<forall>r\<in>set (merge_and_extract_tables (butlast soup)). 4 \<le> length r"
  then show "fst (read_archive post ymd)
      = Inr (spec_prices spec_archive_entry (merge_and_extract_tables (butlast soup))
          [''date'' \<mapsto> Str (strftime_Ymd d')])"
    by (rule read_archive_spec)
next
  assume l: "4 \<le> length row"
    and c: "py_int (row ! 2) = None \<or> py_int (row ! 3) = None
      \<or> (\<exists>s b. py_int (row ! 2) = Some s \<and> py_int (row ! 3) = Some b \<and> (s \<le> 0 \<or> b \<le> 0))"
  from c show e: "spec_archive_entry row = None"
    by (auto simp: spec_archive_entry_cases [OF l] split: option.splits)
  then have skip: "archive_row row p = Inr p" for p
    by (simp add: archive_row_spec [OF l])
  show "archive_row row items = Inr items" by (rule skip)
  show "archive_rows (before @ row # after) items = archive_rows (before @ after) items"
    by (rule archive_rows_skip) (rule skip)
next
  fix s b
  assume l: "4 \<le> length row"
    and c: "py_int (row ! 2) = Some s" "py_int (row ! 3) = Some b" "0 < s" "0 < b"
  from c show e: "spec_archive_entry row = Some (str_lower (row ! 0), Prices \<lparr>sell = s, buy = b\<rparr>)"
    by (simp add: spec_archive_entry_cases [OF l])
  then show "archive_row row items
      = Inr (items(str_lower (row ! 0) \<mapsto> Prices \<lparr>sell = s, buy = b\<rparr>))"
    by (simp add: archive_row_spec [OF l])
  assume "\<forall>r\<in>set (before @ after). 4 \<le> length r"
    "str_lower (row ! 0) \<notin> (\<lambda>r. str_lower (r ! 0)) ` set after"
  from archive_rows_retained [OF this(1) l e this(2)]
  show "\<exists>result. archive_rows (before @ row # after) items = Inr result
      \<and> result (str_lower (row ! 0)) = Some (Prices \<lparr>sell = s, buy = b\<rparr>)" .
next
  assume "2 < length row" "py_int (row ! 2) = None"
  then show "archive_row row items = Inr items" by (rule archive_row_not_integer)
qed


subsection \<open>Short rows\<close>

lemma historical_row_short:
  assumes "length row < 3"
  shows "historical_row row prices =
    (if length row = 2 \<and> py_int (row ! 1) = None then Inr prices else Inl IndexError)"
  using assms by (auto simp: block_defs getitem_def split: option.splits)

lemma archive_row_short:
  assumes "length row < 4"
  shows "archive_row row prices =
    (if length row = 3 \<and> py_int (row ! 2) = None then Inr prices else Inl IndexError)"
  using assms by (auto simp: block_defs getitem_def Let_def split: option.splits)

lemma py_int_42000: "py_int ''42000'' = Some 42000"
  by code_simp

lemma strptime_Ym_2024_01: "strptime_Ym ''2024-01'' = Some \<lparr>year = 2024, month = 1, day = 1\<rparr>"
  by code_simp

lemma strptime_Ymd_2024_01_05:
  "strptime_Ymd ''2024-01-05'' = Some \<lparr>year = 2024, month = 1, day = 5\<rparr>"
  by code_simp

text \<open>
  Claim C8. A row with too few cells makes row processing raise \<open>IndexError\<close>: only
  \<open>ValueError\<close> is suppressed. There is such a row with fewer than three cells for
  \<open>/historical\<close> and one with fewer than four cells for \<open>/archive/\<close>, and the exception
  leaves the handler.
\<close>

theorem short_row_raises_IndexError:
  "(\<exists>row. length row < 3 \<and> historical_row row prices = Inl IndexError)
   \<and> (\<exists>row. length row < 4 \<and> archive_row row items = Inl IndexError)
   \<and> fst (read_historical_currency short_rows_site ''usd'' ''2024-01'') = Inl IndexError
   \<and> fst (read_archive short_rows_site ''2024-01-05'') = Inl IndexError"
proof (intro conjI)
  have "length [''2024-01-01'', ''42000''] < 3
      \<and> historical_row [''2024-01-01'', ''42000''] prices = Inl IndexError"
    by (simp add: historical_row_short py_int_42000)
  then show "\<exists>row. length row < 3 \<and> historical_row row prices = Inl IndexError" ..
  have a: "archive_row [''USD'', ''US Dollar'', ''42000''] p = Inl IndexError" for p :: "string \<rightharpoonup> item"
    by (simp add: archive_row_short py_int_42000)
  then have "length [''USD'', ''US Dollar'', ''42000''] < 4
      \<and> archive_row [''USD'', ''US Dollar'', ''42000''] items = Inl IndexError"
    by simp
  then show "\<exists>row. length row < 4 \<and> archive_row row items = Inl IndexError" ..
  have h: "historical_row [''2024-01-01'', ''42000''] p = Inl IndexError"
    for p :: "string \<rightharpoonup> quote"
    by (simp add: historical_row_short py_int_42000)
  show "fst (read_historical_currency short_rows_site ''usd'' ''2024-01'') = Inl IndexError"
    by (simp add: read_historical_currency_def strptime_Ym_2024_01 crawl_soup_def
        short_rows_site_def h)
  show "fst (read_archive short_rows_site ''2024-01-05'') = Inl IndexError"
    by (simp add: read_archive_def strptime_Ymd_2024_01_05 crawl_soup_def short_rows_site_def
        merge_concat a)
qed

subsection \<open>The rows that the archive handler reads\<close>

text \<open>
  Claim C9. \<open>merge_and_extract_tables\<close> leaves out the first row of each table it is given
  and concatenates the other rows in document order, and the archive handler gives it every
  table of the page but the last one: whatever the last table is, the rows processed are
  those of the tables before it.
\<close>

theorem archive_reads_all_but_last_table:
  "merge_and_extract_tables tables = concat (map (drop 1) tables)
   \<and> (strptime_Ymd date = Some d
        \<and> post (BONBAST_URL @ ''/archive'') [(''date'', strftime_Ymd d)]
            = Response 200 (tables @ [last_table])
      \<longrightarrow> read_archive post date
          = (archive_rows (concat (map (drop 1) tables)) [''date'' \<mapsto> Str (strftime_Ymd d)],
             [(BONBAST_URL @ ''/archive'', [(''date'', strftime_Ymd d)])]))"
proof (intro conjI impI)
  show "merge_and_extract_tables tables = concat (map (drop 1) tables)"
    by (rule merge_concat)
  assume "strptime_Ymd date = Some d
        \<and> post (BONBAST_URL @ ''/archive'') [(''date'', strftime_Ymd d)]
            = Response 200 (tables @ [last_table])"
  then show "read_archive post date
          = (archive_rows (concat (map (drop 1) tables)) [''date'' \<mapsto> Str (strftime_Ymd d)],
             [(BONBAST_URL @ ''/archive'', [(''date'', strftime_Ymd d)])])"
    by (simp add: read_archive_def crawl_soup_200 merge_concat del: merge_and_extract_tables.simps)
qed

subsection \<open>Keys\<close>

lemma dom_fold_update:
  "dom (fold (\<lambda>c m. m(f c \<mapsto> g c)) cs m0) = dom m0 \<union> f ` set cs"
  by (induction cs arbitrary: m0) auto

lemma archive_row_dom:
  assumes "archive_row row p = Inr p'"
  shows "p' = p \<or> (row \<noteq> [] \<and> dom p' = insert (str_lower (row ! 0)) (dom p))"
  using assms
  by (auto simp: block_defs getitem_def Let_def split: if_splits option.splits sum.splits error.splits)

lemma archive_rows_dom:
  assumes "archive_rows rows p = Inr p'" "k \<in> dom p'" "k \<notin> dom p"
  shows "\<exists>row\<in>set rows. row \<noteq> [] \<and> k = str_lower (row ! 0)"
  using assms
proof (induction rows arbitrary: p)
  case Nil
  then show ?case by simp
next
  case (Cons row rows)
  from Cons.prems(1) obtain q where q: "archive_row row p = Inr q" "archive_rows rows q = Inr p'"
    by (auto split: sum.splits)
  show ?case
  proof (cases "k \<in> dom q")
    case True
    with archive_row_dom [OF q(1)] Cons.prems(3) have "row \<noteq> [] \<and> k = str_lower (row ! 0)"
      by auto
    then show ?thesis by simp
  next
    case False
    from Cons.IH [OF q(2) Cons.prems(2) False] show ?thesis by auto
  qed
qed

lemma lower_char_not_upper: "\<not> (65 \<le> code_point (lower_char c) \<and> code_point (lower_char c) \<le> 90)"
proof -
  have "code_point c < 256" by (simp add: code_point_def)
  then show ?thesis
    by (auto simp: lower_char_def code_point_def)
qed

lemma str_lower_no_upper:
  "c \<in> set (str_lower s) \<Longrightarrow> \<not> (65 \<le> code_point c \<and> code_point c \<le> 90)"
  using lower_char_not_upper by (auto simp: str_lower_def)

lemma str_lower_idem: "str_lower (str_lower s) = str_lower s"
proof -
  have "lower_char (lower_char c) = lower_char c" for c
    by (subst lower_char_def) (simp only: lower_char_not_upper if_False)
  then show ?thesis by (simp add: str_lower_def)
qed

text \<open>
  Claim C7. The keys of the mapping that \<open>/latest\<close> returns are the lower-cased codes of the
  currencies the price API returned, and every key other than \<open>date\<close> of the mapping that
  \<open>/archive/\<close> returns is the lower-cased first cell of a row read from the page.
\<close>

theorem keys_are_lower_cased_codes:
  "(read_latest server = Inr latest \<longrightarrow>
      (\<exists>token currencies. get_token_from_main_page server = Inr token
         \<and> get_prices_from_api server token = Inr currencies
         \<and> dom latest = (\<lambda>c. str_lower (code c)) ` set currencies))
   \<and> (read_archive post date = (Inr prices, sent) \<and> k \<in> dom prices \<and> k \<noteq> ''date'' \<longrightarrow>
      (\<exists>d tables row. strptime_Ymd date = Some d
         \<and> post (BONBAST_URL @ ''/archive'') [(''date'', strftime_Ymd d)] = Response 200 tables
         \<and> row \<in> set (concat (map (drop 1) (butlast tables)))
         \<and> row \<noteq> [] \<and> k = str_lower (row ! 0)))"
proof (intro conjI impI)
  assume latest: "read_latest server = Inr latest"
  show "\<exists>token currencies. get_token_from_main_page server = Inr token
         \<and> get_prices_from_api server token = Inr currencies
         \<and> dom latest = (\<lambda>c. str_lower (code c)) ` set currencies"
  proof (cases "get_token_from_main_page server")
    case (Inl e)
    with latest show ?thesis by (simp add: read_latest_def and_then_def)
  next
    case token: (Inr token)
    show ?thesis
    proof (cases "get_prices_from_api server token")
      case (Inl e)
      with latest token show ?thesis by (simp add: read_latest_def and_then_def)
    next
      case (Inr currencies)
      with latest token have "latest = fold (\<lambda>c m. m(str_lower (code c) \<mapsto>
          \<lparr>sell = sell c, buy = buy c\<rparr>)) currencies Map.empty"
        by (simp add: read_latest_def and_then_def)
      then have "dom latest = (\<lambda>c. str_lower (code c)) ` set currencies"
        by (simp only: dom_fold_update dom_empty Un_empty_left)
      with token Inr show ?thesis by blast
    qed
  qed
next
  assume a: "read_archive post date = (Inr prices, sent) \<and> k \<in> dom prices \<and> k \<noteq> ''date''"
  then obtain d where d: "strptime_Ymd date = Some d"
    by (cases "strptime_Ymd date") (auto simp: read_archive_def)
  let ?url = "BONBAST_URL @ ''/archive''" and ?data = "[(''date'', strftime_Ymd d)]"
  from a d obtain tables where t: "post ?url ?data = Response 200 tables"
    by (cases "post ?url ?data") (auto simp: read_archive_def crawl_soup_def split: if_splits)
  from a d t have r: "archive_rows (concat (map (drop 1) (butlast tables)))
      [''date'' \<mapsto> Str (strftime_Ymd d)] = Inr prices"
    by (simp add: read_archive_def crawl_soup_200 merge_concat del: merge_and_extract_tables.simps)
  from a have "k \<notin> dom [''date'' \<mapsto> Str (strftime_Ymd d)]" by simp
  from archive_rows_dom [OF r _ this] a
  obtain row where "row \<in> set (concat (map (drop 1) (butlast tables)))" "row \<noteq> []"
    "k = str_lower (row ! 0)"
    by blast
  with d t show "\<exists>d tables row. strptime_Ymd date = Some d
         \<and> post (BONBAST_URL @ ''/archive'') [(''date'', strftime_Ymd d)] = Response 200 tables
         \<and> row \<in> set (concat (map (drop 1) (butlast tables)))
         \<and> row \<noteq> [] \<and> k = str_lower (row ! 0)"
    by blast
qed


subsection \<open>The crypto endpoint\<close>

text \<open>
  Claim C4. When the market API answers with a status code outside 200 to 299, \<open>/crypto\<close>
  raises an \<open>HTTPException\<close> with that status code; when it answers with a status code in
  200 to 299 and a JSON body that has \<open>result.symbols\<close>, that value is returned as it is.
\<close>

theorem crypto_status_or_symbols:
  "(wallex = Some response \<and> \<not> (200 \<le> status_code response \<and> status_code response \<le> 299)
      \<longrightarrow> get_crypto_prices wallex
          = Inl (HTTPException (status_code response) (status_error response)))
   \<and> (wallex = Some response \<and> 200 \<le> status_code response \<and> status_code response \<le> 299
        \<and> json response = Some (JObject items)
        \<and> map_of items ''result'' = Some (JObject result)
        \<and> map_of result ''symbols'' = Some symbols
      \<longrightarrow> get_crypto_prices wallex = Inr symbols)"
  by (simp add: get_crypto_prices_def is_success_def subscript_def and_then_def)

subsection \<open>The poller\<close>

lemma cache_held:
  "cache expire clk entry call =
     (case held entry (at_lookup clk) of
        Some v \<Rightarrow> (Inr v, entry, False)
      | None \<Rightarrow>
          (case call of
             Inl e \<Rightarrow> (Inl e, None, True)
           | Inr v \<Rightarrow> (Inr v, Some (v, at_keep clk + expire), True)))"
  by (auto simp: cache_def backend_get_def held_def split: option.splits)




text \<open>
  An exception that is not an \<open>Exception\<close> passes the \<open>except Exception\<close> clause and ends the
  loop, whatever the later cycles would have been.
\<close>

lemma base_exception_ends_loop:
  assumes "held (latest_entry st) (at_lookup (latest_clock w)) = None"
    and "read_latest (bonbast_server w) = Inl e" "\<not> is_Exception e"
  shows "scheduler (w # ws) st = Inl e"
  using assms
  by (simp add: and_then_def fetch_and_cache_data_def read_latest_cached_def cache_held did_def)



subsection \<open>The sample inputs\<close>

lemma py_int_samples:
  "py_int ''42000'' = Some 42000" "py_int ''41900'' = Some 41900" "py_int ''45000'' = Some 45000"
  "py_int ''53000'' = Some 53000" "py_int ''42100'' = Some 42100" "py_int ''0'' = Some 0"
  "py_int ''-5'' = Some (- 5)" "py_int ''-'' = None" "py_int ''n/a'' = None"
  "py_int ''US Dollar'' = None" "py_int ''1'' = Some 1"
  by code_simp+

lemma str_lower_samples:
  "str_lower ''USD'' = ''usd''" "str_lower ''EUR'' = ''eur''" "str_lower ''GBP'' = ''gbp''"
  by code_simp+

lemma archive_rows_sample:
  "archive_rows (concat (map (drop 1) (butlast archive_page))) items
     = Inr (items(''usd'' \<mapsto> Prices \<lparr>sell = 42000, buy = 41900\<rparr>))"
  by (simp add: archive_page_def archive_row_cases py_int_samples str_lower_samples)

lemma read_archive_sample:
  assumes "strptime_Ymd date = Some d"
  shows "read_archive sample_site date
    = (Inr [''date'' \<mapsto> Str (strftime_Ymd d), ''usd'' \<mapsto> Prices \<lparr>sell = 42000, buy = 41900\<rparr>],
       [(BONBAST_URL @ ''/archive'', [(''date'', strftime_Ymd d)])])"
  using assms
  by (simp add: read_archive_def crawl_soup_def sample_site_def merge_concat archive_rows_sample
      del: merge_and_extract_tables.simps One_nat_def)

lemma strftime_samples:
  "strftime_Ymd \<lparr>year = 2024, month = 1, day = 5\<rparr> = ''2024-01-05''"
  "strftime_Ymd \<lparr>year = 2024, month = 1, day = 1\<rparr> = ''2024-01-01''"
  by code_simp+

text \<open>Claim C3, amended, on the sample pages and their rows.\<close>

theorem rows_skipped_or_retained_witness:
  "fst (read_historical_currency sample_site ''usd'' ''2024-01'')
      = Inr [''2024-01-01'' \<mapsto> \<lparr>sell = 42000, buy = 41900\<rparr>]
   \<and> py_int ''-'' = None
   \<and> historical_row [''2024-01-02'', ''-'', ''-''] Map.empty = Inr Map.empty
   \<and> historical_rows ([[''2024-01-01'', ''42000'', ''41900'']] @ [''2024-01-02'', ''-'', ''-'']
        # [[''2024-01-03'', ''42100'', ''-5'']]) Map.empty
      = historical_rows ([[''2024-01-01'', ''42000'', ''41900'']]
        @ [[''2024-01-03'', ''42100'', ''-5'']]) Map.empty
   \<and> py_int ''42000'' = Some 42000 \<and> py_int ''41900'' = Some 41900
   \<and> historical_row [''2024-01-01'', ''42000'', ''41900''] Map.empty
      = Inr [''2024-01-01'' \<mapsto> \<lparr>sell = 42000, buy = 41900\<rparr>]
   \<and> (\<exists>result. historical_rows ([] @ [''2024-01-01'', ''42000'', ''41900'']
          # [[''2024-01-02'', ''-'', ''-''], [''2024-01-03'', ''42100'', ''-5'']]) Map.empty
        = Inr result
      \<and> result ''2024-01-01'' = Some \<lparr>sell = 42000, buy = 41900\<rparr>)
   \<and> historical_row [''2024-01-02'', ''-''] Map.empty = Inr Map.empty
   \<and> fst (read_archive sample_site ''2024-01-05'')
      = Inr [''date'' \<mapsto> Str ''2024-01-05'', ''usd'' \<mapsto> Prices \<lparr>sell = 42000, buy = 41900\<rparr>]
   \<and> py_int ''0'' = Some 0
   \<and> archive_row [''GBP'', ''British Pound'', ''53000'', ''0''] Map.empty = Inr Map.empty
   \<and> archive_row [''USD'', ''US Dollar'', ''42000'', ''41900''] Map.empty
      = Inr [''usd'' \<mapsto> Prices \<lparr>sell = 42000, buy = 41900\<rparr>]
   \<and> (\<exists>result. archive_rows ([] @ [''USD'', ''US Dollar'', ''42000'', ''41900'']
          # [[''EUR'', ''Euro'', ''n/a'', ''45000''], [''GBP'', ''British Pound'', ''53000'', ''0'']])
          [''date'' \<mapsto> Str ''2024-01-05'']
        = Inr result
      \<and> result ''usd'' = Some (Prices \<lparr>sell = 42000, buy = 41900\<rparr>))
   \<and> archive_row [''EUR'', ''Euro'', ''n/a''] Map.empty = Inr Map.empty"
proof -
  note h1 = rows_skipped_or_retained [where ym = "''2024-01''"
      and d = "\<lparr>year = 2024, month = 1, day = 1\<rparr>" and post = sample_site
      and currency = "''usd''"
      and table_soup = "[[''Date'', ''Sell'', ''Buy''], [''2024-01-01'', ''42000'', ''41900''],
        [''2024-01-02'', ''-'', ''-''], [''2024-01-03'', ''42100'', ''-5'']]"
      and tables = "[]"
      and row = "[''2024-01-02'', ''-'', ''-'']" and prices = Map.empty
      and before = "[[''2024-01-01'', ''42000'', ''41900'']]"
      and after = "[[''2024-01-03'', ''42100'', ''-5'']]"]
  note h2 = rows_skipped_or_retained [where row = "[''2024-01-01'', ''42000'', ''41900'']"
      and prices = Map.empty and before = "[]"
      and after = "[[''2024-01-02'', ''-'', ''-''], [''2024-01-03'', ''42100'', ''-5'']]"]
  note h3 = rows_skipped_or_retained [where row = "[''2024-01-02'', ''-'']"
      and prices = Map.empty]
  note a1 = rows_skipped_or_retained [where ymd = "''2024-01-05''"
      and d' = "\<lparr>year = 2024, month = 1, day = 5\<rparr>" and post = sample_site
      and soup = archive_page
      and row = "[''GBP'', ''British Pound'', ''53000'', ''0'']" and items = Map.empty]
  note a2 = rows_skipped_or_retained [where row = "[''USD'', ''US Dollar'', ''42000'', ''41900'']"
      and items = Map.empty]
  note a3 = rows_skipped_or_retained [where row = "[''USD'', ''US Dollar'', ''42000'', ''41900'']"
      and items = "[''date'' \<mapsto> Str ''2024-01-05'']" and before = "[]"
      and after = "[[''EUR'', ''Euro'', ''n/a'', ''45000''],
        [''GBP'', ''British Pound'', ''53000'', ''0'']]"]
  note a4 = rows_skipped_or_retained [where row = "[''EUR'', ''Euro'', ''n/a'']"
      and items = Map.empty]
  have "fst (read_historical_currency sample_site ''usd'' ''2024-01'')
      = Inr [''2024-01-01'' \<mapsto> \<lparr>sell = 42000, buy = 41900\<rparr>]"
    using h1
    by (simp add: strptime_Ym_2024_01 sample_site_def historical_page_def spec_prices_def
        py_int_samples)
  moreover have "historical_row [''2024-01-02'', ''-'', ''-''] Map.empty = Inr Map.empty"
    "historical_rows ([[''2024-01-01'', ''42000'', ''41900'']] @ [''2024-01-02'', ''-'', ''-'']
        # [[''2024-01-03'', ''42100'', ''-5'']]) Map.empty
      = historical_rows ([[''2024-01-01'', ''42000'', ''41900'']]
        @ [[''2024-01-03'', ''42100'', ''-5'']]) Map.empty"
    using h1 by (simp_all add: py_int_samples spec_prices_def del: historical_rows.simps)
  moreover have "historical_row [''2024-01-01'', ''42000'', ''41900''] Map.empty
      = Inr [''2024-01-01'' \<mapsto> \<lparr>sell = 42000, buy = 41900\<rparr>]"
    "\<exists>result. historical_rows ([] @ [''2024-01-01'', ''42000'', ''41900'']
          # [[''2024-01-02'', ''-'', ''-''], [''2024-01-03'', ''42100'', ''-5'']]) Map.empty
        = Inr result
      \<and> result ''2024-01-01'' = Some \<lparr>sell = 42000, buy = 41900\<rparr>"
    using h2 by (simp_all add: py_int_samples spec_prices_def del: historical_rows.simps)
  moreover have "historical_row [''2024-01-02'', ''-''] Map.empty = Inr Map.empty"
    using h3 by (simp add: py_int_samples)
  moreover have "fst (read_archive sample_site ''2024-01-05'')
      = Inr [''date'' \<mapsto> Str ''2024-01-05'', ''usd'' \<mapsto> Prices \<lparr>sell = 42000, buy = 41900\<rparr>]"
    using a1
    by (simp add: strptime_Ymd_2024_01_05 sample_site_def archive_page_def spec_prices_def
        py_int_samples str_lower_samples strftime_samples)
  moreover have "archive_row [''GBP'', ''British Pound'', ''53000'', ''0''] Map.empty = Inr Map.empty"
    using a1 by (simp add: py_int_samples)
  moreover have "archive_row [''USD'', ''US Dollar'', ''42000'', ''41900''] Map.empty
      = Inr [''usd'' \<mapsto> Prices \<lparr>sell = 42000, buy = 41900\<rparr>]"
    using a2 by (simp add: py_int_samples str_lower_samples)
  moreover have "\<exists>result. archive_rows ([] @ [''USD'', ''US Dollar'', ''42000'', ''41900'']
          # [[''EUR'', ''Euro'', ''n/a'', ''45000''], [''GBP'', ''British Pound'', ''53000'', ''0'']])
          [''date'' \<mapsto> Str ''2024-01-05'']
        = Inr result
      \<and> result ''usd'' = Some (Prices \<lparr>sell = 42000, buy = 41900\<rparr>)"
    using a3 by (simp add: py_int_samples str_lower_samples spec_prices_def del: archive_rows.simps)
  moreover have "archive_row [''EUR'', ''Euro'', ''n/a''] Map.empty = Inr Map.empty"
    using a4 by (simp add: py_int_samples)
  ultimately show ?thesis
    by (simp add: py_int_samples)
qed

text \<open>
  Claim C3 as stated fails on a row that stops after its sell cell when this cell is an
  integer: the sell cell \<open>0\<close> parses to a non-positive integer, and the row is not skipped
  but raises \<open>IndexError\<close>, which leaves the handler.
\<close>

theorem zero_sell_row_raises_IndexError:
  "py_int ''0'' = Some 0
   \<and> historical_row [''2024-01-01'', ''0''] Map.empty = Inl IndexError
   \<and> fst (read_historical_currency zero_sell_site ''usd'' ''2024-01'') = Inl IndexError
   \<and> archive_row [''USD'', ''US Dollar'', ''0''] Map.empty = Inl IndexError
   \<and> fst (read_archive zero_sell_site ''2024-01-05'') = Inl IndexError"
proof -
  have h: "historical_row [''2024-01-01'', ''0''] p = Inl IndexError"
    for p :: "string \<rightharpoonup> quote"
    by (simp add: historical_row_short py_int_samples)
  have a: "archive_row [''USD'', ''US Dollar'', ''0''] p = Inl IndexError"
    for p :: "string \<rightharpoonup> item"
    by (simp add: archive_row_short py_int_samples)
  have "fst (read_historical_currency zero_sell_site ''usd'' ''2024-01'') = Inl IndexError"
    by (simp add: read_historical_currency_def strptime_Ym_2024_01 crawl_soup_def
        zero_sell_site_def h)
  moreover have "fst (read_archive zero_sell_site ''2024-01-05'') = Inl IndexError"
    by (simp add: read_archive_def strptime_Ymd_2024_01_05 crawl_soup_def zero_sell_site_def
        merge_concat a)
  ultimately show ?thesis
    by (simp add: h a py_int_samples)
qed

text \<open>Claim C9 on the sample site: the rows of its third table are not read.\<close>

theorem archive_reads_all_but_last_table_witness:
  "strptime_Ymd ''2024-01-05'' = Some \<lparr>year = 2024, month = 1, day = 5\<rparr>
   \<and> sample_site (BONBAST_URL @ ''/archive'') [(''date'', ''2024-01-05'')]
      = Response 200 (butlast archive_page @ [last archive_page])
   \<and> read_archive sample_site ''2024-01-05''
      = (archive_rows (concat (map (drop 1) (butlast archive_page))) [''date'' \<mapsto> Str ''2024-01-05''],
         [(BONBAST_URL @ ''/archive'', [(''date'', ''2024-01-05'')])])
   \<and> archive_rows (concat (map (drop 1) (butlast archive_page))) [''date'' \<mapsto> Str ''2024-01-05'']
      = Inr [''date'' \<mapsto> Str ''2024-01-05'', ''usd'' \<mapsto> Prices \<lparr>sell = 42000, buy = 41900\<rparr>]"
proof -
  have a: "strptime_Ymd ''2024-01-05'' = Some \<lparr>year = 2024, month = 1, day = 5\<rparr>"
    by (rule strptime_Ymd_2024_01_05)
  have b: "sample_site (BONBAST_URL @ ''/archive'')
      [(''date'', strftime_Ymd \<lparr>year = 2024, month = 1, day = 5\<rparr>)]
      = Response 200 (butlast archive_page @ [last archive_page])"
    by (simp add: sample_site_def archive_page_def)
  from archive_reads_all_but_last_table [of "butlast archive_page" "''2024-01-05''"
      "\<lparr>year = 2024, month = 1, day = 5\<rparr>" sample_site "last archive_page"] a b
  show ?thesis
    by (simp add: strftime_samples archive_rows_sample del: One_nat_def)
qed

text \<open>Claim C4 on a market API that is down (503) and on one that answers.\<close>

theorem crypto_status_or_symbols_witness:
  "get_crypto_prices (Some wallex_down)
      = Inl (HTTPException 503 ''Server error 503 Service Unavailable'')
   \<and> get_crypto_prices (Some wallex_ok) = Inr (JObject [(''BTCUSDT'', JNumber 64000)])"
  using
    crypto_status_or_symbols [of "Some wallex_down" wallex_down]
    crypto_status_or_symbols [of "Some wallex_ok" wallex_ok
      "[(''success'', JBool True),
        (''result'', JObject [(''symbols'', JObject [(''BTCUSDT'', JNumber 64000)])])]"
      "[(''symbols'', JObject [(''BTCUSDT'', JNumber 64000)])]"
      "JObject [(''BTCUSDT'', JNumber 64000)]"]
  by (simp add: wallex_down_def wallex_ok_def)


lemma read_latest_sample:
  "read_latest sample_bonbast
     = Inr [''usd'' \<mapsto> \<lparr>sell = 42000, buy = 41900\<rparr>, ''eur'' \<mapsto> \<lparr>sell = 46000, buy = 45900\<rparr>]"
  by (simp add: read_latest_def sample_bonbast_def and_then_def str_lower_samples)



text \<open>Claim C7 on the sample client and the sample site.\<close>

theorem keys_are_lower_cased_codes_witness:
  "read_latest sample_bonbast
     = Inr [''usd'' \<mapsto> \<lparr>sell = 42000, buy = 41900\<rparr>, ''eur'' \<mapsto> \<lparr>sell = 46000, buy = 45900\<rparr>]
   \<and> (\<exists>token currencies. get_token_from_main_page sample_bonbast = Inr token
         \<and> get_prices_from_api sample_bonbast token = Inr currencies
         \<and> {''usd'', ''eur''} = (\<lambda>c. str_lower (code c)) ` set currencies)
   \<and> read_archive sample_site ''2024-01-05''
     = (Inr [''date'' \<mapsto> Str ''2024-01-05'', ''usd'' \<mapsto> Prices \<lparr>sell = 42000, buy = 41900\<rparr>],
        [(BONBAST_URL @ ''/archive'', [(''date'', ''2024-01-05'')])])
   \<and> (\<exists>d tables row. strptime_Ymd ''2024-01-05'' = Some d
         \<and> sample_site (BONBAST_URL @ ''/archive'') [(''date'', strftime_Ymd d)] = Response 200 tables
         \<and> row \<in> set (concat (map (drop 1) (butlast tables)))
         \<and> row \<noteq> [] \<and> ''usd'' = str_lower (row ! 0))"
proof -
  have a: "read_archive sample_site ''2024-01-05''
     = (Inr [''date'' \<mapsto> Str ''2024-01-05'', ''usd'' \<mapsto> Prices \<lparr>sell = 42000, buy = 41900\<rparr>],
        [(BONBAST_URL @ ''/archive'', [(''date'', ''2024-01-05'')])])"
    using read_archive_sample [OF strptime_Ymd_2024_01_05] by (simp add: strftime_samples)
  have k: "''usd'' \<in> dom [''date'' \<mapsto> Str ''2024-01-05'',
      ''usd'' \<mapsto> Prices \<lparr>sell = 42000, buy = 41900\<rparr>]" "''usd'' \<noteq> ''date''"
    by simp_all
  have d: "dom [''usd'' \<mapsto> \<lparr>sell = 42000, buy = 41900\<rparr>, ''eur'' \<mapsto> \<lparr>sell = 46000, buy = 45900\<rparr>]
      = {''usd'', ''eur''}"
    by auto
  from keys_are_lower_cased_codes [of sample_bonbast
      "[''usd'' \<mapsto> \<lparr>sell = 42000, buy = 41900\<rparr>, ''eur'' \<mapsto> \<lparr>sell = 46000, buy = 45900\<rparr>]"
      sample_site "''2024-01-05''"
      "[''date'' \<mapsto> Str ''2024-01-05'', ''usd'' \<mapsto> Prices \<lparr>sell = 42000, buy = 41900\<rparr>]"
      "[(BONBAST_URL @ ''/archive'', [(''date'', ''2024-01-05'')])]" "''usd''"]
    read_latest_sample a k
  show ?thesis unfolding d by blast
qed




subsection \<open>Date validation\<close>

lemma historical_row_error: "historical_row row p = Inl e \<Longrightarrow> e = IndexError"
  by (auto simp: block_defs getitem_def split: if_splits option.splits sum.splits error.splits)

lemma archive_row_error: "archive_row row p = Inl e \<Longrightarrow> e = IndexError"
  by (auto simp: block_defs getitem_def Let_def split: if_splits option.splits sum.splits error.splits)

lemma historical_rows_error: "historical_rows rows p = Inl e \<Longrightarrow> e = IndexError"
  by (induction rows arbitrary: p) (auto split: sum.splits dest: historical_row_error)

lemma archive_rows_error: "archive_rows rows p = Inl e \<Longrightarrow> e = IndexError"
  by (induction rows arbitrary: p) (auto split: sum.splits dest: archive_row_error)

lemma crawl_soup_cases:
  "crawl_soup post url post_data = (r, sent) \<Longrightarrow>
   sent = [(url, post_data)]
   \<and> (r = Inl RequestError \<or> r = Inl (Exception (''Failed to crawl '' @ url)) \<or> (\<exists>html. r = Inr html))"
  by (auto simp: crawl_soup_def split: response.splits if_splits)

lemma read_historical_currency_parsed:
  assumes "strptime_Ym date = Some d"
  shows "fst (read_historical_currency post currency date) \<noteq> Inl (HTTPException status detail)"
    and "snd (read_historical_currency post currency date)
      = [(BONBAST_URL @ ''/historical'', [(''date'', strftime_Ymd d), (''currency'', currency)])]"
proof -
  let ?url = "BONBAST_URL @ ''/historical''"
  let ?data = "[(''date'', strftime_Ymd d), (''currency'', currency)]"
  obtain r sent where c: "crawl_soup post ?url ?data = (r, sent)"
    by (cases "crawl_soup post ?url ?data")
  note cc = crawl_soup_cases [OF c]
  show "fst (read_historical_currency post currency date) \<noteq> Inl (HTTPException status detail)"
    using assms c cc
    by (auto simp: read_historical_currency_def split: list.splits dest: historical_rows_error)
  show "snd (read_historical_currency post currency date) = [(?url, ?data)]"
    using assms c cc
    by (auto simp: read_historical_currency_def split: list.splits sum.splits)
qed

lemma read_archive_parsed:
  assumes "strptime_Ymd date = Some d"
  shows "fst (read_archive post date) \<noteq> Inl (HTTPException status detail)"
    and "snd (read_archive post date) = [(BONBAST_URL @ ''/archive'', [(''date'', strftime_Ymd d)])]"
proof -
  let ?url = "BONBAST_URL @ ''/archive''"
  let ?data = "[(''date'', strftime_Ymd d)]"
  obtain r sent where c: "crawl_soup post ?url ?data = (r, sent)"
    by (cases "crawl_soup post ?url ?data")
  note cc = crawl_soup_cases [OF c]
  show "fst (read_archive post date) \<noteq> Inl (HTTPException status detail)"
    using assms c cc
    by (auto simp: read_archive_def simp del: merge_and_extract_tables.simps
        dest: archive_rows_error)
  show "snd (read_archive post date) = [(?url, ?data)]"
    using assms c cc
    by (auto simp: read_archive_def simp del: merge_and_extract_tables.simps split: sum.splits)
qed

lemma add_days_is_date:
  assumes "add_days s i = Inr d"
  shows "is_date d" "toordinal d = toordinal s + i"
  using assms ord2ymd_is_date [of "toordinal s + i"]
  by (auto simp: add_days_def Let_def split: if_splits)

lemma add_days_year:
  assumes "is_date s" "1000 \<le> year s" "0 \<le> i" "add_days s i = Inr d"
  shows "1000 \<le> year d"
proof -
  note d = add_days_is_date [OF assms(4)]
  from d(2) assms(3) have "toordinal s \<le> toordinal d" by simp
  from year_mono [OF assms(1) d(1) this] assms(2) show ?thesis by simp
qed

lemma archive_range_loop_no_http:
  assumes "is_date s" "1000 \<le> year s" "\<forall>i\<in>set is. 0 \<le> i"
  shows "fst (archive_range_loop post s is pr sent) \<noteq> Inl (HTTPException status detail)"
  using assms(3)
proof (induction "is" arbitrary: pr sent)
  case Nil
  show ?case by simp
next
  case (Cons i r)
  from Cons.prems have i: "0 \<le> i" and r: "\<forall>i\<in>set r. 0 \<le> i" by simp_all
  note IH = Cons.IH [OF r]
  show ?case
  proof (cases "add_days s i")
    case (Inl e)
    then have "e = OverflowError" by (auto simp: add_days_def Let_def split: if_splits)
    with Inl show ?thesis by simp
  next
    case (Inr d)
    from add_days_is_date(1) [OF Inr] add_days_year [OF assms(1,2) i Inr]
    have p: "strptime_Ymd (strftime_Ymd d) = Some d"
      by (rule strptime_strftime)
    obtain res sn where ra: "read_archive post (strftime_Ymd d) = (res, sn)"
      by (cases "read_archive post (strftime_Ymd d)")
    with read_archive_parsed(1) [OF p, of post status detail]
    have ne: "res \<noteq> Inl (HTTPException status detail)" by simp
    show ?thesis
      using Inr ra ne IH
      by (auto split: sum.splits option.splits item.splits)
  qed
qed

text \<open>
  A year below 1000 is formatted without leading zeros, which \<open>%Y\<close> does not read back:
  in a range that starts in such a year the nested call of \<open>read_archive\<close> for the first
  day raises the 422 of \<open>/archive/\<close>, before anything is sent upstream.
\<close>

lemma read_archive_short_year:
  assumes "year d < 1000"
  shows "read_archive post (strftime_Ymd d)
    = (Inl (HTTPException 422 ''Invalid Date format. Expected YYYY-MM-DD''), [])"
  by (simp add: read_archive_def strptime_short_year [OF assms])

lemma read_archive_range_short_year:
  assumes "strptime_Ymd start_date = Some s" "strptime_Ymd end_date = Some e"
    and "year s < 1000" "\<not> date_after s e"
  shows "read_archive_range post start_date end_date
    = (Inl (HTTPException 422 ''Invalid Date format. Expected YYYY-MM-DD''), [])"
proof -
  have vs: "is_date s" and ve: "is_date e"
    using assms(1,2) by (auto dest: strptime_Ymd_is_date)
  from assms(4) date_after_iff [OF vs ve] have "toordinal s \<le> toordinal e" by simp
  then have "0 < nat (days_between e s + 1)" by (simp add: days_between_def)
  then obtain k where k: "nat (days_between e s + 1) = Suc k" by (cases "nat (days_between e s + 1)") auto
  have "py_range (days_between e s + 1) = 0 # map int [1..<Suc k]"
    unfolding py_range_def k by (simp add: upt_conv_Cons del: upt_Suc)
  moreover have "add_days s 0 = Inr s"
    using toordinal_bounds [OF vs] ord2ymd_toordinal [OF vs] by (simp add: add_days_def Let_def)
  ultimately show ?thesis
    using assms(1,2) read_archive_short_year [OF assms(3), of post]
    by (simp add: read_archive_range_def)
qed


text \<open>
  Claim C2. A date parameter that does not parse in the endpoint's format (\<open>%Y-%m\<close> for
  \<open>/historical\<close>, \<open>%Y-%m-%d\<close> for \<open>/archive/\<close> and for both dates of \<open>/archive/range\<close>)
  makes the endpoint raise \<open>HTTPException\<close> with status 422 and the fixed detail
  \<open>Invalid Date format. Expected \<dots>\<close>, and nothing is sent upstream. When the parameter
  of \<open>/historical\<close> or of \<open>/archive/\<close> parses, the endpoint raises no \<open>HTTPException\<close> at
  all, whatever the upstream answers. When both dates of \<open>/archive/range\<close> parse, no 422 is
  raised at this step: the endpoint goes on to the loop over the days of the range, from the
  empty mapping, and in a range that starts in the year 1000 or later the loop raises no
  \<open>HTTPException\<close> either.
\<close>

theorem invalid_date_is_422:
  "(strptime_Ym ym = None \<longrightarrow>
      read_historical_currency post currency ym
        = (Inl (HTTPException 422 ''Invalid Date format. Expected YYYY-MM''), []))
   \<and> (strptime_Ym ym \<noteq> None \<longrightarrow>
      fst (read_historical_currency post currency ym) \<noteq> Inl (HTTPException status detail))
   \<and> (strptime_Ymd ymd = None \<longrightarrow>
      read_archive post ymd
        = (Inl (HTTPException 422 ''Invalid Date format. Expected YYYY-MM-DD''), []))
   \<and> (strptime_Ymd ymd \<noteq> None \<longrightarrow>
      fst (read_archive post ymd) \<noteq> Inl (HTTPException status detail))
   \<and> (strptime_Ymd start_date = None \<or> strptime_Ymd end_date = None \<longrightarrow>
      read_archive_range post start_date end_date
        = (Inl (HTTPException 422 ''Invalid Date format. Expected YYYY-MM-DD''), []))
   \<and> (strptime_Ymd start_date = Some s \<and> strptime_Ymd end_date = Some e \<longrightarrow>
      read_archive_range post start_date end_date
        = archive_range_loop post s (py_range (days_between e s + 1)) Map.empty []
      \<and> (1000 \<le> year s \<longrightarrow>
        fst (read_archive_range post start_date end_date) \<noteq> Inl (HTTPException status detail)))"
proof (intro conjI impI)
  assume "strptime_Ym ym = None"
  then show "read_historical_currency post currency ym
      = (Inl (HTTPException 422 ''Invalid Date format. Expected YYYY-MM''), [])"
    by (simp add: read_historical_currency_def)
next
  assume "strptime_Ym ym \<noteq> None"
  then obtain d where "strptime_Ym ym = Some d" by blast
  then show "fst (read_historical_currency post currency ym) \<noteq> Inl (HTTPException status detail)"
    by (rule read_historical_currency_parsed(1))
next
  assume "strptime_Ymd ymd = None"
  then show "read_archive post ymd
      = (Inl (HTTPException 422 ''Invalid Date format. Expected YYYY-MM-DD''), [])"
    by (simp add: read_archive_def)
next
  assume "strptime_Ymd ymd \<noteq> None"
  then obtain d where "strptime_Ymd ymd = Some d" by blast
  then show "fst (read_archive post ymd) \<noteq> Inl (HTTPException status detail)"
    by (rule read_archive_parsed(1))
next
  assume "strptime_Ymd start_date = None \<or> strptime_Ymd end_date = None"
  then show "read_archive_range post start_date end_date
      = (Inl (HTTPException 422 ''Invalid Date format. Expected YYYY-MM-DD''), [])"
    by (auto simp: read_archive_range_def split: option.splits)
next
  assume "strptime_Ymd start_date = Some s \<and> strptime_Ymd end_date = Some e"
  then show "read_archive_range post start_date end_date
      = archive_range_loop post s (py_range (days_between e s + 1)) Map.empty []"
    by (simp add: read_archive_range_def)
next
  assume p: "strptime_Ymd start_date = Some s \<and> strptime_Ymd end_date = Some e"
    and y: "1000 \<le> year s"
  from p have "is_date s" by (auto dest: strptime_Ymd_is_date)
  moreover have "\<forall>i\<in>set (py_range (days_between e s + 1)). 0 \<le> i"
    by (auto simp: py_range_def)
  ultimately have "fst (archive_range_loop post s (py_range (days_between e s + 1)) Map.empty [])
      \<noteq> Inl (HTTPException status detail)"
    using y by (intro archive_range_loop_no_http)
  with p show "fst (read_archive_range post start_date end_date) \<noteq> Inl (HTTPException status detail)"
    by (simp add: read_archive_range_def)
qed

lemma strptime_samples:
  "strptime_Ym ''2024-13'' = None" "strptime_Ymd ''05/01/2024'' = None"
  "strptime_Ymd ''2024-02-30'' = None"
  "strptime_Ymd ''2024-01-03'' = Some \<lparr>year = 2024, month = 1, day = 3\<rparr>"
  "strptime_Ymd ''2024-01-01'' = Some \<lparr>year = 2024, month = 1, day = 1\<rparr>"
  "strptime_Ymd ''2024-02-28'' = Some \<lparr>year = 2024, month = 2, day = 28\<rparr>"
  "strptime_Ymd ''2024-03-01'' = Some \<lparr>year = 2024, month = 3, day = 1\<rparr>"
  by code_simp+

subsection \<open>A range that ends before it starts\<close>

text \<open>
  Claim C10. When both dates parse and \<open>start_date\<close> is strictly after \<open>end_date\<close>,
  \<open>/archive/range\<close> returns the empty mapping, raises nothing and sends nothing upstream.
\<close>

theorem start_after_end_is_empty:
  assumes "strptime_Ymd start_date = Some s" and "strptime_Ymd end_date = Some e"
    and "date_after s e"
  shows "read_archive_range post start_date end_date = (Inr Map.empty, [])"
proof -
  have "is_date s" "is_date e"
    using assms(1,2) by (auto dest: strptime_Ymd_is_date)
  with assms(3) have "toordinal e < toordinal s"
    by (simp add: date_after_iff)
  then have "py_range (days_between e s + 1) = []"
    by (simp add: py_range_def days_between_def)
  with assms(1,2) show ?thesis
    by (simp add: read_archive_range_def)
qed

text \<open>Claim C10 from 3 January 2024 to 1 January 2024.\<close>

theorem start_after_end_is_empty_witness:
  "strptime_Ymd ''2024-01-03'' = Some \<lparr>year = 2024, month = 1, day = 3\<rparr>
   \<and> strptime_Ymd ''2024-01-01'' = Some \<lparr>year = 2024, month = 1, day = 1\<rparr>
   \<and> date_after \<lparr>year = 2024, month = 1, day = 3\<rparr> \<lparr>year = 2024, month = 1, day = 1\<rparr>
   \<and> read_archive_range sample_site ''2024-01-03'' ''2024-01-01'' = (Inr Map.empty, [])"
proof -
  have a: "date_after \<lparr>year = 2024, month = 1, day = 3\<rparr> \<lparr>year = 2024, month = 1, day = 1\<rparr>"
    by (simp add: date_after_def)
  from start_after_end_is_empty [OF strptime_samples(4) strptime_samples(5) a, of sample_site] a
  show ?thesis by (simp add: strptime_samples)
qed


subsection \<open>The days of a range\<close>

lemma archive_row_keeps_text:
  assumes "archive_row row p = Inr p'" "p' k = Some (Str x)"
  shows "p k = Some (Str x)"
  using assms
  by (auto simp: block_defs getitem_def Let_def
      split: if_splits option.splits sum.splits error.splits)

lemma archive_rows_keeps_text:
  assumes "archive_rows rows p = Inr p'" "p' k = Some (Str x)"
  shows "p k = Some (Str x)"
  using assms
proof (induction rows arbitrary: p)
  case Nil
  then show ?case by simp
next
  case (Cons row rows)
  from Cons.prems(1) obtain q where q: "archive_row row p = Inr q" "archive_rows rows q = Inr p'"
    by (auto split: sum.splits)
  from Cons.IH [OF q(2) Cons.prems(2)] have "q k = Some (Str x)" .
  with q(1) show ?case by (rule archive_row_keeps_text)
qed

lemma read_archive_date:
  assumes "read_archive post date = (Inr price, sent)" "price ''date'' = Some (Str x)"
  shows "\<exists>d. strptime_Ymd date = Some d \<and> x = strftime_Ymd d"
proof -
  from assms(1) obtain d where d: "strptime_Ymd date = Some d"
    by (cases "strptime_Ymd date") (auto simp: read_archive_def)
  let ?url = "BONBAST_URL @ ''/archive''" and ?data = "[(''date'', strftime_Ymd d)]"
  obtain r sn where c: "crawl_soup post ?url ?data = (r, sn)"
    by (cases "crawl_soup post ?url ?data")
  from assms(1) d c obtain rows where
    "archive_rows rows [''date'' \<mapsto> Str (strftime_Ymd d)] = Inr price"
    by (cases r) (auto simp: read_archive_def simp del: merge_and_extract_tables.simps)
  from archive_rows_keeps_text [OF this assms(2)] have "x = strftime_Ymd d" by simp
  with d show ?thesis by blast
qed

text \<open>The key and the entry of the day \<open>i\<close> days after \<open>s\<close>.\<close>

lemma archive_range_loop_result:
  assumes K_def: "\<And>i. K i = strftime_Ymd (ord2ymd (toordinal s + i))"
    and E_def: "\<And>i. E i = (case fst (read_archive post (K i)) of
      Inr price \<Rightarrow> price(''date'' := None) | Inl e \<Rightarrow> Map.empty)"
    and "archive_range_loop post s is pr sent = (Inr pr', sent')"
  shows "pr' = fold (\<lambda>i m. m(K i \<mapsto> E i)) is pr
    \<and> (\<forall>i\<in>set is. 0 < toordinal s + i \<and> toordinal s + i \<le> MAXORDINAL
      \<and> 1000 \<le> year (ord2ymd (toordinal s + i))
      \<and> (\<exists>price. fst (read_archive post (K i)) = Inr price \<and> price ''date'' = Some (Str (K i))))"
  using assms(3)
proof (induction "is" arbitrary: pr sent)
  case Nil
  then show ?case by simp
next
  case (Cons i r)
  from Cons.prems obtain d where d: "add_days s i = Inr d"
    by (cases "add_days s i") auto
  then have bounds: "0 < toordinal s + i" "toordinal s + i \<le> MAXORDINAL"
    and dd: "d = ord2ymd (toordinal s + i)"
    by (auto simp: add_days_def Let_def split: if_splits)
  have kd: "strftime_Ymd d = K i" by (simp add: K_def dd)
  from Cons.prems d kd obtain price sn where ra: "read_archive post (K i) = (Inr price, sn)"
    by (cases "read_archive post (K i)"; cases "fst (read_archive post (K i))") auto
  from ra have "strptime_Ymd (K i) \<noteq> None"
    by (auto simp: read_archive_def split: option.splits)
  with strptime_strftime_iff [OF add_days_is_date(1) [OF d]]
  have yd: "1000 \<le> year d" and p: "strptime_Ymd (K i) = Some d"
    unfolding kd by (simp_all split: if_splits)
  from Cons.prems d kd ra obtain x where x: "price ''date'' = Some (Str x)"
    and rec: "archive_range_loop post s r (pr(x \<mapsto> price(''date'' := None))) (sent @ sn)
      = (Inr pr', sent')"
    by (auto split: option.splits item.splits)
  from read_archive_date [OF ra x] p have xk: "x = K i" by (simp add: kd)
  have ei: "E i = price(''date'' := None)" by (simp add: E_def ra)
  from rec have "archive_range_loop post s r (pr(K i \<mapsto> E i)) (sent @ sn) = (Inr pr', sent')"
    by (simp only: xk ei)
  from Cons.IH [OF this] have a: "pr' = fold (\<lambda>i m. m(K i \<mapsto> E i)) r (pr(K i \<mapsto> E i))"
    and b: "\<forall>i\<in>set r. 0 < toordinal s + i \<and> toordinal s + i \<le> MAXORDINAL
      \<and> 1000 \<le> year (ord2ymd (toordinal s + i))
      \<and> (\<exists>price. fst (read_archive post (K i)) = Inr price \<and> price ''date'' = Some (Str (K i)))"
    by blast+
  from a have c: "pr' = fold (\<lambda>i m. m(K i \<mapsto> E i)) (i # r) pr"
    by (simp only: fold_Cons o_apply)
  have "fst (read_archive post (K i)) = Inr price \<and> price ''date'' = Some (Str (K i))"
    using ra x xk by simp
  with bounds b yd [unfolded dd]
  have e: "\<forall>i\<in>set (i # r). 0 < toordinal s + i \<and> toordinal s + i \<le> MAXORDINAL
      \<and> 1000 \<le> year (ord2ymd (toordinal s + i))
      \<and> (\<exists>price. fst (read_archive post (K i)) = Inr price \<and> price ''date'' = Some (Str (K i)))"
    by simp
  from c e show ?case by (rule conjI)
qed


lemma set_py_range: "i \<in> set (py_range n) \<longleftrightarrow> 0 \<le> i \<and> i < n"
proof
  assume "i \<in> set (py_range n)"
  then show "0 \<le> i \<and> i < n" by (auto simp: py_range_def)
next
  assume "0 \<le> i \<and> i < n"
  then have "nat i \<in> {0..<nat n}" "int (nat i) = i" by auto
  then have "i \<in> int ` {0..<nat n}" by (metis imageI)
  then show "i \<in> set (py_range n)" by (simp add: py_range_def)
qed

lemma distinct_py_range: "distinct (py_range n)"
  by (simp add: py_range_def distinct_map)

lemma length_py_range: "length (py_range n) = nat n"
  by (simp add: py_range_def)

lemma fold_update_other:
  "k \<notin> K ` set js \<Longrightarrow> fold (\<lambda>i m. m(K i \<mapsto> E i)) js m k = m k"
  by (induction js arbitrary: m) auto

lemma fold_update_lookup:
  assumes "inj_on K (set js)" "distinct js" "i \<in> set js"
  shows "fold (\<lambda>i m. m(K i \<mapsto> E i)) js m (K i) = Some (E i)"
  using assms
proof (induction js arbitrary: m)
  case Nil
  then show ?case by simp
next
  case (Cons j r)
  show ?case
  proof (cases "i = j")
    case True
    from Cons.prems(1,2) have "K j \<notin> K ` set r" by (auto simp: inj_on_def)
    then have "fold (\<lambda>i m. m(K i \<mapsto> E i)) r (m(K j \<mapsto> E j)) (K j) = (m(K j \<mapsto> E j)) (K j)"
      by (rule fold_update_other)
    then show ?thesis
      unfolding True by (simp only: fold_Cons o_apply fun_upd_same)
  next
    case False
    with Cons.prems have "inj_on K (set r)" "distinct r" "i \<in> set r" by (auto simp: inj_on_def)
    from Cons.IH [OF this] show ?thesis by simp
  qed
qed

text \<open>
  Claim C1, amended. When both dates parse and \<open>/archive/range\<close> returns a mapping, the
  mapping has \<open>max(0, (end_date - start_date).days + 1)\<close> keys: its keys are the formatted
  dates of the calendar days from \<open>start_date\<close> to \<open>end_date\<close> inclusive (none when
  \<open>start_date\<close> is after \<open>end_date\<close>), and the entry of a day is the single-day archive
  result for that day without its \<open>date\<close> field, whose value is the key.
\<close>

theorem archive_range_has_one_key_per_day:
  assumes s: "strptime_Ymd start_date = Some s" and e: "strptime_Ymd end_date = Some e"
    and result: "read_archive_range post start_date end_date = (Inr price_range, sent)"
  shows "card (dom price_range) = nat (days_between e s + 1)
    \<and> dom price_range = strftime_Ymd ` {d. is_date d \<and> \<not> date_after s d \<and> \<not> date_after d e}
    \<and> (\<forall>d. is_date d \<and> \<not> date_after s d \<and> \<not> date_after d e \<longrightarrow>
          (\<exists>price. fst (read_archive post (strftime_Ymd d)) = Inr price
             \<and> price ''date'' = Some (Str (strftime_Ymd d))
             \<and> price_range (strftime_Ymd d) = Some (price(''date'' := None))))"
proof -
  define D where "D = (\<lambda>i. ord2ymd (toordinal s + i))"
  define K where "K = (\<lambda>i. strftime_Ymd (ord2ymd (toordinal s + i)))"
  define E where "E = (\<lambda>i. case fst (read_archive post (K i)) of
      Inr price \<Rightarrow> price(''date'' := None) | Inl e \<Rightarrow> Map.empty)"
  define n where "n = days_between e s + 1"
  define days where "days = {d. is_date d \<and> \<not> date_after s d \<and> \<not> date_after d e}"
  have vs: "is_date s" and ve: "is_date e"
    using s e by (auto dest: strptime_Ymd_is_date)
  note bs = toordinal_bounds [OF vs] and be = toordinal_bounds [OF ve]
  have loop: "archive_range_loop post s (py_range n) Map.empty [] = (Inr price_range, sent)"
    using result s e by (simp add: read_archive_range_def n_def)
  have "K i = strftime_Ymd (ord2ymd (toordinal s + i))" for i by (simp add: K_def)
  moreover have "E i = (case fst (read_archive post (K i)) of
      Inr price \<Rightarrow> price(''date'' := None) | Inl e \<Rightarrow> Map.empty)" for i by (simp add: E_def)
  ultimately have inv: "price_range = fold (\<lambda>i m. m(K i \<mapsto> E i)) (py_range n) Map.empty
    \<and> (\<forall>i\<in>set (py_range n). 0 < toordinal s + i \<and> toordinal s + i \<le> MAXORDINAL
      \<and> 1000 \<le> year (ord2ymd (toordinal s + i))
      \<and> (\<exists>price. fst (read_archive post (K i)) = Inr price \<and> price ''date'' = Some (Str (K i))))"
    using loop by (rule archive_range_loop_result)
  have pr: "price_range = fold (\<lambda>i m. m(K i \<mapsto> E i)) (py_range n) Map.empty"
    using inv by blast
  have got: "\<exists>price. fst (read_archive post (K i)) = Inr price \<and> price ''date'' = Some (Str (K i))"
    if "i \<in> set (py_range n)" for i
    using inv that by blast
  have in_range: "0 \<le> i \<and> toordinal s + i \<le> toordinal e" if "i \<in> set (py_range n)" for i
    using that by (simp add: set_py_range n_def days_between_def)
  have valid: "is_date (D i)" and ordinal: "toordinal (D i) = toordinal s + i"
    if "i \<in> set (py_range n)" for i
  proof -
    from in_range [OF that] bs be
    have "1 \<le> toordinal s + i" "toordinal s + i \<le> MAXORDINAL" by simp_all
    then show "is_date (D i)" "toordinal (D i) = toordinal s + i"
      unfolding D_def by (rule ord2ymd_is_date)+
  qed
  have KD: "K i = strftime_Ymd (D i)" for i by (simp add: K_def D_def)
  have long: "1000 \<le> year (D i)" if "i \<in> set (py_range n)" for i
    unfolding D_def using inv that by blast
  have inj: "inj_on K (set (py_range n))"
  proof (rule inj_onI)
    fix i j
    assume i: "i \<in> set (py_range n)" and j: "j \<in> set (py_range n)" and eq: "K i = K j"
    from eq have "D i = D j"
      unfolding KD by (rule strftime_inject [OF valid [OF i] long [OF i] valid [OF j] long [OF j]])
    then have "toordinal (D i) = toordinal (D j)" by simp
    then show "i = j" by (simp add: ordinal [OF i] ordinal [OF j])
  qed
  have dom: "dom price_range = K ` set (py_range n)"
    unfolding pr by (simp only: dom_fold_update dom_empty Un_empty_left)
  have "card (dom price_range) = card (set (py_range n))"
    unfolding dom using inj by (rule card_image)
  also have "\<dots> = nat n"
    by (simp add: distinct_card [OF distinct_py_range] length_py_range)
  finally have count: "card (dom price_range) = nat (days_between e s + 1)"
    by (simp add: n_def)
  have days_eq: "days = D ` set (py_range n)"
  proof (intro set_eqI iffI)
    fix d
    assume "d \<in> days"
    then have d: "is_date d" "toordinal s \<le> toordinal d" "toordinal d \<le> toordinal e"
      using vs ve by (auto simp: days_def date_after_iff)
    define i where "i = toordinal d - toordinal s"
    from d have "i \<in> set (py_range n)"
      by (simp add: set_py_range n_def days_between_def i_def)
    moreover have "D i = d"
      by (simp add: D_def i_def ord2ymd_toordinal [OF d(1)])
    ultimately show "d \<in> D ` set (py_range n)" by blast
  next
    fix d
    assume "d \<in> D ` set (py_range n)"
    then obtain i where i: "i \<in> set (py_range n)" and d: "d = D i" by blast
    from valid [OF i] ordinal [OF i] in_range [OF i] vs ve show "d \<in> days"
      by (simp add: days_def d date_after_iff)
  qed
  have keys: "dom price_range = strftime_Ymd ` days"
    unfolding dom days_eq by (auto simp: KD)
  have entries: "\<exists>price. fst (read_archive post (strftime_Ymd d)) = Inr price
      \<and> price ''date'' = Some (Str (strftime_Ymd d))
      \<and> price_range (strftime_Ymd d) = Some (price(''date'' := None))"
    if "d \<in> days" for d
  proof -
    from that obtain i where i: "i \<in> set (py_range n)" and d: "d = D i"
      unfolding days_eq by blast
    from got [OF i] obtain price where p: "fst (read_archive post (K i)) = Inr price"
      "price ''date'' = Some (Str (K i))"
      by blast
    have "price_range (K i) = Some (E i)"
      unfolding pr by (rule fold_update_lookup [OF inj distinct_py_range i])
    moreover have "E i = price(''date'' := None)" by (simp add: E_def p(1))
    ultimately show ?thesis using p by (simp add: d KD)
  qed
  from count keys entries show ?thesis
    unfolding days_def by blast
qed


lemma archive_range_loop_returns:
  assumes "is_date s" "\<forall>i\<in>set is. 0 \<le> i \<and> toordinal s + i \<le> MAXORDINAL"
    and "\<And>d. is_date d \<Longrightarrow> year s \<le> year d \<Longrightarrow>
      \<exists>price sn x. read_archive post (strftime_Ymd d) = (Inr price, sn)
        \<and> price ''date'' = Some (Str x)"
  shows "\<exists>pr' sent'. archive_range_loop post s is pr sent = (Inr pr', sent')"
  using assms(2)
proof (induction "is" arbitrary: pr sent)
  case Nil
  show ?case by simp
next
  case (Cons i r)
  from Cons.prems toordinal_bounds(1) [OF assms(1)]
  have i: "0 \<le> i" and b: "0 < toordinal s + i" "toordinal s + i \<le> MAXORDINAL" by simp_all
  then have d: "add_days s i = Inr (ord2ymd (toordinal s + i))"
    by (simp add: add_days_def)
  note v = add_days_is_date [OF d]
  from v(2) i have "toordinal s \<le> toordinal (ord2ymd (toordinal s + i))" by simp
  from assms(3) [OF v(1) year_mono [OF assms(1) v(1) this]] obtain price sn x where
    ra: "read_archive post (strftime_Ymd (ord2ymd (toordinal s + i))) = (Inr price, sn)"
    and x: "price ''date'' = Some (Str x)"
    by blast
  from Cons.prems have "\<forall>i\<in>set r. 0 \<le> i \<and> toordinal s + i \<le> MAXORDINAL" by simp
  from Cons.IH [OF this, of "pr(x \<mapsto> price(''date'' := None))" "sent @ sn"]
  obtain pr' sent' where rec:
    "archive_range_loop post s r (pr(x \<mapsto> price(''date'' := None))) (sent @ sn) = (Inr pr', sent')"
    by blast
  have "archive_range_loop post s (i # r) pr sent = (Inr pr', sent')"
    by (simp add: d ra x rec)
  then show ?case by blast
qed

lemma read_archive_range_returns:
  assumes "strptime_Ymd start_date = Some s" "strptime_Ymd end_date = Some e"
    and "\<And>d. is_date d \<Longrightarrow> year s \<le> year d \<Longrightarrow>
      \<exists>price sn x. read_archive post (strftime_Ymd d) = (Inr price, sn)
        \<and> price ''date'' = Some (Str x)"
  shows "\<exists>price_range sent. read_archive_range post start_date end_date = (Inr price_range, sent)"
proof -
  have vs: "is_date s" and ve: "is_date e"
    using assms(1,2) by (auto dest: strptime_Ymd_is_date)
  note bs = toordinal_bounds [OF vs] and be = toordinal_bounds [OF ve]
  have "\<forall>i\<in>set (py_range (days_between e s + 1)).
      0 \<le> i \<and> toordinal s + i \<le> MAXORDINAL"
    using bs be by (auto simp: set_py_range days_between_def)
  from archive_range_loop_returns [OF vs this assms(3)] assms(1,2) show ?thesis
    by (simp add: read_archive_range_def)
qed

lemma sample_site_range_returns:
  assumes "strptime_Ymd start_date = Some s" "strptime_Ymd end_date = Some e"
    and y: "1000 \<le> year s"
  shows "\<exists>price_range sent.
    read_archive_range sample_site start_date end_date = (Inr price_range, sent)"
  using assms(1,2)
proof (rule read_archive_range_returns)
  fix d
  assume "is_date d" "year s \<le> year d"
  with y have "strptime_Ymd (strftime_Ymd d) = Some d" by (intro strptime_strftime) simp_all
  from read_archive_sample [OF this]
  show "\<exists>price sn x. read_archive sample_site (strftime_Ymd d) = (Inr price, sn)
      \<and> price ''date'' = Some (Str x)"
    by simp
qed

text \<open>
  Claim C1 as stated fails when \<open>start_date\<close> is more than one day after \<open>end_date\<close>:
  from 3 January 2024 to 1 January 2024 the mapping is empty, and
  \<open>(end_date - start_date).days + 1\<close> is \<open>-1\<close>.
\<close>

theorem archive_range_count_counterexample:
  "strptime_Ymd ''2024-01-03'' = Some \<lparr>year = 2024, month = 1, day = 3\<rparr>
   \<and> strptime_Ymd ''2024-01-01'' = Some \<lparr>year = 2024, month = 1, day = 1\<rparr>
   \<and> read_archive_range sample_site ''2024-01-03'' ''2024-01-01'' = (Inr Map.empty, [])
   \<and> days_between \<lparr>year = 2024, month = 1, day = 1\<rparr> \<lparr>year = 2024, month = 1, day = 3\<rparr> + 1 = - 1
   \<and> int (card (dom (Map.empty :: string \<rightharpoonup> (string \<rightharpoonup> item))))
      \<noteq> days_between \<lparr>year = 2024, month = 1, day = 1\<rparr> \<lparr>year = 2024, month = 1, day = 3\<rparr> + 1"
proof -
  have d: "days_between \<lparr>year = 2024, month = 1, day = 1\<rparr> \<lparr>year = 2024, month = 1, day = 3\<rparr> = - 2"
    by code_simp
  have "py_range (- 1) = []" by (simp add: py_range_def)
  then show ?thesis
    by (simp add: strptime_samples read_archive_range_def d)
qed

lemma sample_days:
  "add_days \<lparr>year = 2024, month = 2, day = 28\<rparr> 0 = Inr \<lparr>year = 2024, month = 2, day = 28\<rparr>"
  "add_days \<lparr>year = 2024, month = 2, day = 28\<rparr> 1 = Inr \<lparr>year = 2024, month = 2, day = 29\<rparr>"
  "add_days \<lparr>year = 2024, month = 2, day = 28\<rparr> 2 = Inr \<lparr>year = 2024, month = 3, day = 1\<rparr>"
  "days_between \<lparr>year = 2024, month = 3, day = 1\<rparr> \<lparr>year = 2024, month = 2, day = 28\<rparr> = 2"
  "strftime_Ymd \<lparr>year = 2024, month = 2, day = 28\<rparr> = ''2024-02-28''"
  "strftime_Ymd \<lparr>year = 2024, month = 2, day = 29\<rparr> = ''2024-02-29''"
  "strftime_Ymd \<lparr>year = 2024, month = 3, day = 1\<rparr> = ''2024-03-01''"
  "strptime_Ymd ''2024-02-29'' = Some \<lparr>year = 2024, month = 2, day = 29\<rparr>"
  "py_range 3 = [0, 1, 2]"
  "is_date \<lparr>year = 2024, month = 2, day = 29\<rparr>"
  by code_simp+

lemma read_archive_range_sample:
  "read_archive_range sample_site ''2024-02-28'' ''2024-03-01''
     = (Inr [''2024-02-28'' \<mapsto> sample_entry ''2024-02-28'',
             ''2024-02-29'' \<mapsto> sample_entry ''2024-02-29'',
             ''2024-03-01'' \<mapsto> sample_entry ''2024-03-01''],
        [(BONBAST_URL @ ''/archive'', [(''date'', ''2024-02-28'')]),
         (BONBAST_URL @ ''/archive'', [(''date'', ''2024-02-29'')]),
         (BONBAST_URL @ ''/archive'', [(''date'', ''2024-03-01'')])])"
proof -
  have r: "read_archive sample_site ''2024-02-28''
      = (Inr [''date'' \<mapsto> Str ''2024-02-28'', ''usd'' \<mapsto> Prices \<lparr>sell = 42000, buy = 41900\<rparr>],
         [(BONBAST_URL @ ''/archive'', [(''date'', ''2024-02-28'')])])"
    "read_archive sample_site ''2024-02-29''
      = (Inr [''date'' \<mapsto> Str ''2024-02-29'', ''usd'' \<mapsto> Prices \<lparr>sell = 42000, buy = 41900\<rparr>],
         [(BONBAST_URL @ ''/archive'', [(''date'', ''2024-02-29'')])])"
    "read_archive sample_site ''2024-03-01''
      = (Inr [''date'' \<mapsto> Str ''2024-03-01'', ''usd'' \<mapsto> Prices \<lparr>sell = 42000, buy = 41900\<rparr>],
         [(BONBAST_URL @ ''/archive'', [(''date'', ''2024-03-01'')])])"
    using read_archive_sample [OF strptime_samples(6)] read_archive_sample [OF sample_days(8)]
      read_archive_sample [OF strptime_samples(7)]
    by (simp_all only: sample_days)
  show ?thesis
    by (simp add: read_archive_range_def strptime_samples sample_days r sample_entry_def)
qed

text \<open>Claim C1, amended, from 28 February 2024 to 1 March 2024: three days.\<close>

theorem archive_range_has_one_key_per_day_witness:
  "\<exists>price_range sent.
     read_archive_range sample_site ''2024-02-28'' ''2024-03-01'' = (Inr price_range, sent)
     \<and> card (dom price_range) = 3
     \<and> ''2024-02-29'' \<in> dom price_range
     \<and> price_range ''2024-02-29'' = Some (sample_entry ''2024-02-29'')"
proof -
  let ?s = "\<lparr>year = 2024, month = 2, day = 28\<rparr>" and ?e = "\<lparr>year = 2024, month = 3, day = 1\<rparr>"
  let ?d = "\<lparr>year = 2024, month = 2, day = 29\<rparr>"
  note t = archive_range_has_one_key_per_day
    [OF strptime_samples(6) strptime_samples(7) read_archive_range_sample]
  have d: "is_date ?d \<and> \<not> date_after ?s ?d \<and> \<not> date_after ?d ?e"
    by (simp add: sample_days date_after_def)
  from t [THEN conjunct1] have "card (dom [''2024-02-28'' \<mapsto> sample_entry ''2024-02-28'',
             ''2024-02-29'' \<mapsto> sample_entry ''2024-02-29'',
             ''2024-03-01'' \<mapsto> sample_entry ''2024-03-01'']) = 3"
    by (simp only: sample_days)
  moreover from t [THEN conjunct2, THEN conjunct1] d have "strftime_Ymd ?d \<in> dom [''2024-02-28'' \<mapsto> sample_entry ''2024-02-28'',
             ''2024-02-29'' \<mapsto> sample_entry ''2024-02-29'',
             ''2024-03-01'' \<mapsto> sample_entry ''2024-03-01'']"
    by blast
  ultimately show ?thesis
    using read_archive_range_sample by (simp add: sample_days)
qed


lemma historical_rows_sample:
  "historical_rows (drop 1 (hd historical_page)) Map.empty
     = Inr [''2024-01-01'' \<mapsto> \<lparr>sell = 42000, buy = 41900\<rparr>]"
  by (simp add: historical_page_def historical_row_cases py_int_samples)

lemma read_historical_sample:
  assumes "strptime_Ym date = Some d"
  shows "read_historical_currency sample_site currency date
    = (Inr [''2024-01-01'' \<mapsto> \<lparr>sell = 42000, buy = 41900\<rparr>],
       [(BONBAST_URL @ ''/historical'', [(''date'', strftime_Ymd d), (''currency'', currency)])])"
proof -
  have "historical_page = hd historical_page # tl historical_page"
    by (simp add: historical_page_def)
  then obtain t ts where p: "historical_page = t # ts" and t: "t = hd historical_page"
    by blast
  show ?thesis
    using assms historical_rows_sample
    by (simp add: read_historical_currency_def crawl_soup_def sample_site_def p t [symmetric]
        del: One_nat_def)
qed

text \<open>Claim C2 on dates that do not parse and on dates that do.\<close>

theorem invalid_date_is_422_witness:
  "strptime_Ym ''2024-13'' = None
   \<and> read_historical_currency sample_site ''usd'' ''2024-13''
      = (Inl (HTTPException 422 ''Invalid Date format. Expected YYYY-MM''), [])
   \<and> strptime_Ym ''2024-01'' = Some \<lparr>year = 2024, month = 1, day = 1\<rparr>
   \<and> fst (read_historical_currency sample_site ''usd'' ''2024-01'')
      \<noteq> Inl (HTTPException 422 ''Invalid Date format. Expected YYYY-MM'')
   \<and> strptime_Ymd ''05/01/2024'' = None
   \<and> read_archive sample_site ''05/01/2024''
      = (Inl (HTTPException 422 ''Invalid Date format. Expected YYYY-MM-DD''), [])
   \<and> fst (read_archive sample_site ''2024-01-05'')
      \<noteq> Inl (HTTPException 422 ''Invalid Date format. Expected YYYY-MM-DD'')
   \<and> strptime_Ymd ''2024-02-30'' = None
   \<and> read_archive_range sample_site ''2024-01-01'' ''2024-02-30''
      = (Inl (HTTPException 422 ''Invalid Date format. Expected YYYY-MM-DD''), [])
   \<and> strptime_Ymd ''2024-02-28'' = Some \<lparr>year = 2024, month = 2, day = 28\<rparr>
   \<and> strptime_Ymd ''2024-03-01'' = Some \<lparr>year = 2024, month = 3, day = 1\<rparr>
   \<and> read_archive_range sample_site ''2024-02-28'' ''2024-03-01''
      = archive_range_loop sample_site \<lparr>year = 2024, month = 2, day = 28\<rparr>
          (py_range (days_between \<lparr>year = 2024, month = 3, day = 1\<rparr>
            \<lparr>year = 2024, month = 2, day = 28\<rparr> + 1)) Map.empty []
   \<and> fst (read_archive_range sample_site ''2024-02-28'' ''2024-03-01'')
      \<noteq> Inl (HTTPException 422 ''Invalid Date format. Expected YYYY-MM-DD'')"
  using
    invalid_date_is_422 [where ym = "''2024-13''" and post = sample_site and currency = "''usd''"
      and ymd = "''05/01/2024''" and start_date = "''2024-01-01''" and end_date = "''2024-02-30''"]
    invalid_date_is_422 [where ym = "''2024-01''" and post = sample_site and currency = "''usd''"
      and ymd = "''2024-01-05''" and start_date = "''2024-02-28''" and end_date = "''2024-03-01''"
      and s = "\<lparr>year = 2024, month = 2, day = 28\<rparr>"
      and e = "\<lparr>year = 2024, month = 3, day = 1\<rparr>"
      and status = 422 and detail = "''Invalid Date format. Expected YYYY-MM''"]
    invalid_date_is_422 [where ym = "''2024-01''" and post = sample_site and currency = "''usd''"
      and ymd = "''2024-01-05''" and start_date = "''2024-02-28''" and end_date = "''2024-03-01''"
      and s = "\<lparr>year = 2024, month = 2, day = 28\<rparr>"
      and e = "\<lparr>year = 2024, month = 3, day = 1\<rparr>"
      and status = 422 and detail = "''Invalid Date format. Expected YYYY-MM-DD''"]
  by (auto simp: strptime_samples strptime_Ym_2024_01 strptime_Ymd_2024_01_05)

text \<open>
  From 5 to 6 January 999 both dates parse, and the call of \<open>read_archive\<close> for the first
  day raises the 422 of \<open>/archive/\<close>: \<open>strftime\<close> writes the year as \<open>999\<close>.
\<close>

lemma strptime_year_999:
  "strptime_Ymd ''0999-01-05'' = Some \<lparr>year = 999, month = 1, day = 5\<rparr>"
  "strptime_Ymd ''0999-01-06'' = Some \<lparr>year = 999, month = 1, day = 6\<rparr>"
  "strftime_Ymd \<lparr>year = 999, month = 1, day = 5\<rparr> = ''999-01-05''"
  "strptime_Ymd ''999-01-05'' = None"
  by code_simp+

lemma read_archive_range_year_999:
  "read_archive_range post ''0999-01-05'' ''0999-01-06''
    = (Inl (HTTPException 422 ''Invalid Date format. Expected YYYY-MM-DD''), [])"
  by (rule read_archive_range_short_year [OF strptime_year_999(1,2)])
    (simp_all add: date_after_def)

subsection \<open>Default dates\<close>

lemma load_samples:
  "add_days \<lparr>year = 2024, month = 1, day = 31\<rparr> (- 1) = Inr \<lparr>year = 2024, month = 1, day = 30\<rparr>"
  "strftime_Ym \<lparr>year = 2024, month = 1, day = 31\<rparr> = ''2024-01''"
  "strftime_Ymd \<lparr>year = 2024, month = 1, day = 30\<rparr> = ''2024-01-30''"
  "strptime_Ymd ''2024-01-30'' = Some \<lparr>year = 2024, month = 1, day = 30\<rparr>"
  "add_days \<lparr>year = 2024, month = 2, day = 2\<rparr> (- 1) = Inr \<lparr>year = 2024, month = 2, day = 1\<rparr>"
  "strftime_Ym \<lparr>year = 2024, month = 2, day = 2\<rparr> = ''2024-02''"
  "strftime_Ymd \<lparr>year = 2024, month = 2, day = 1\<rparr> = ''2024-02-01''"
  by code_simp+

lemma defaults_are_of_load_time:
  assumes "module_defaults today = Inr defs"
  shows "get_historical defs post currency None
      = read_historical_currency post currency (strftime_Ym today)"
    and "get_archive defs post None
      = read_archive post (strftime_Ymd (ord2ymd (toordinal today - 1)))"
    and "get_archive_range defs post start_date None
      = read_archive_range post start_date (strftime_Ymd (ord2ymd (toordinal today - 1)))"
proof -
  from assms have "defs = \<lparr>historical_date = strftime_Ym today,
      archive_date = strftime_Ymd (ord2ymd (toordinal today - 1)),
      range_end_date = strftime_Ymd (ord2ymd (toordinal today - 1))\<rparr>"
    by (auto simp: module_defaults_def and_then_def add_days_def Let_def split: if_splits)
  then show "get_historical defs post currency None
      = read_historical_currency post currency (strftime_Ym today)"
    and "get_archive defs post None
      = read_archive post (strftime_Ymd (ord2ymd (toordinal today - 1)))"
    and "get_archive_range defs post start_date None
      = read_archive_range post start_date (strftime_Ymd (ord2ymd (toordinal today - 1)))"
    by (simp_all add: get_historical_def get_archive_def get_archive_range_def)
qed

text \<open>
  Claim C5 on a process that loaded the module on 31 January 2024: a request without a date
  parameter is answered for January 2024 (\<open>/historical\<close>) and for 30 January 2024
  (\<open>/archive/\<close>, and the end of \<open>/archive/range\<close>), whenever it is made. For a request made
  on 2 February 2024 the current month is \<open>2024-02\<close> and yesterday is \<open>2024-02-01\<close>.
\<close>

theorem default_dates_are_those_of_load_time:
  "module_defaults \<lparr>year = 2024, month = 1, day = 31\<rparr> = Inr loaded_2024_01_31
   \<and> snd (get_historical loaded_2024_01_31 sample_site ''usd'' None)
      = [(BONBAST_URL @ ''/historical'', [(''date'', ''2024-01-01''), (''currency'', ''usd'')])]
   \<and> snd (get_archive loaded_2024_01_31 sample_site None)
      = [(BONBAST_URL @ ''/archive'', [(''date'', ''2024-01-30'')])]
   \<and> snd (get_archive_range loaded_2024_01_31 sample_site ''2024-01-30'' None)
      = [(BONBAST_URL @ ''/archive'', [(''date'', ''2024-01-30'')])]
   \<and> strftime_Ym \<lparr>year = 2024, month = 2, day = 2\<rparr> = ''2024-02''
   \<and> add_days \<lparr>year = 2024, month = 2, day = 2\<rparr> (- 1) = Inr \<lparr>year = 2024, month = 2, day = 1\<rparr>
   \<and> strftime_Ymd \<lparr>year = 2024, month = 2, day = 1\<rparr> = ''2024-02-01''"
proof -
  have a: "module_defaults \<lparr>year = 2024, month = 1, day = 31\<rparr> = Inr loaded_2024_01_31"
    by (simp add: module_defaults_def and_then_def load_samples loaded_2024_01_31_def)
  have h: "snd (get_historical loaded_2024_01_31 sample_site ''usd'' None)
      = [(BONBAST_URL @ ''/historical'', [(''date'', ''2024-01-01''), (''currency'', ''usd'')])]"
    using read_historical_currency_parsed(2) [OF strptime_Ym_2024_01, of sample_site "''usd''"]
    by (simp add: get_historical_def loaded_2024_01_31_def strftime_samples)
  have r: "snd (get_archive loaded_2024_01_31 sample_site None)
      = [(BONBAST_URL @ ''/archive'', [(''date'', ''2024-01-30'')])]"
    using read_archive_parsed(2) [OF load_samples(4), of sample_site]
    by (simp add: get_archive_def loaded_2024_01_31_def load_samples)
  have d: "days_between \<lparr>year = 2024, month = 1, day = 30\<rparr> \<lparr>year = 2024, month = 1, day = 30\<rparr> = 0"
    by (simp add: days_between_def)
  have z: "add_days \<lparr>year = 2024, month = 1, day = 30\<rparr> 0 = Inr \<lparr>year = 2024, month = 1, day = 30\<rparr>"
    by code_simp
  have g: "snd (get_archive_range loaded_2024_01_31 sample_site ''2024-01-30'' None)
      = [(BONBAST_URL @ ''/archive'', [(''date'', ''2024-01-30'')])]"
    using read_archive_sample [OF load_samples(4)]
    by (simp add: get_archive_range_def loaded_2024_01_31_def read_archive_range_def load_samples
        d py_range_def z)
  from a h r g show ?thesis by (simp add: load_samples)
qed

end
